theory Spec2Isabelle
  imports Main "HOL-Library.Word" "HOL-Library.Signed_Division" "HOL-Library.Sublist"
begin

section \<open>Andesite: a shallow embedding of main.go\<close>

text \<open>
  The definitions below follow \<^verbatim>\<open>src/main.go\<close> function by function. Go's \<^verbatim>\<open>int\<close> is
  modelled as \<^typ>\<open>int\<close> where the code only compares or copies it, and \<^verbatim>\<open>int64\<close> as
  \<^typ>\<open>64 word\<close> where the code divides and multiplies. A run-time panic of the Go
  code is a value \<open>Inl p\<close> of the result, a normal return is \<open>Inr v\<close>.
\<close>

datatype panic =
    InterfaceConversion   \<comment> \<open>a failed type assertion \<^verbatim>\<open>x.(string)\<close>\<close>
  | IndexOutOfRange       \<comment> \<open>\<^verbatim>\<open>s[i]\<close> with \<^verbatim>\<open>i\<close> outside the string\<close>
  | DivideByZero          \<comment> \<open>integer division by zero\<close>
  | ReflectPanic          \<comment> \<open>a panic raised inside package \<^verbatim>\<open>reflect\<close>\<close>

subsection \<open>findFirstNonZero and the server port\<close>

text \<open>
  \<^verbatim>\<open>func findFirstNonZero(values ...int) int\<close>: the \<^verbatim>\<open>for range\<close> loop returns the first
  item that is not 0, and 0 after the loop.
\<close>

fun findFirstNonZero :: "int list \<Rightarrow> int" where
  "findFirstNonZero [] = 0"
| "findFirstNonZero (item # values) =
     (if item \<noteq> 0 then item else findFirstNonZero values)"

text \<open>\<^verbatim>\<open>opPort := findFirstNonZero(*flagPort, config.Port, 8000)\<close> in \<^verbatim>\<open>main\<close>.\<close>

definition opPort :: "int \<Rightarrow> int \<Rightarrow> int" where
  "opPort flagPort configPort = findFirstNonZero [flagPort, configPort, 8000]"

subsection \<open>reduceNumber and byteCountIEC\<close>

type_synonym int64 = "64 word"

text \<open>Go's \<^verbatim>\<open>/\<close> on \<^verbatim>\<open>int64\<close> truncates towards zero and wraps at the type's width.\<close>

definition div64 :: "int64 \<Rightarrow> int64 \<Rightarrow> int64" where
  "div64 a b = word_of_int (sint a sdiv sint b)"

text \<open>
  The verb \<^verbatim>\<open>%d\<close> of package \<^verbatim>\<open>fmt\<close> on an integer: its decimal digits, most
  significant first, after a minus sign when it is negative.
\<close>

definition digitChar :: "nat \<Rightarrow> char" where
  "digitChar d = ''0123456789'' ! d"

function decimalNat :: "nat \<Rightarrow> string" where
  "decimalNat n =
     (if n < 10 then [digitChar n] else decimalNat (n div 10) @ [digitChar (n mod 10)])"
  by pat_completeness auto
termination
  by (relation "measure id") auto

declare decimalNat.simps [simp del]

definition fmtD :: "int \<Rightarrow> string" where
  "fmtD i = (if i < 0 then CHR ''-'' # decimalNat (nat (- i)) else decimalNat (nat i))"

text \<open>Reading a digit string back, to say what "decimal representation" means.\<close>

definition isDigit :: "char \<Rightarrow> bool" where
  "isDigit c = ((48::nat) \<le> of_char c \<and> of_char c \<le> (57::nat))"

definition digitVal :: "char \<Rightarrow> nat" where
  "digitVal c = of_char c - 48"

definition decimalValue :: "string \<Rightarrow> nat" where
  "decimalValue ds = foldl (\<lambda>acc c. 10 * acc + digitVal c) 0 ds"

text \<open>
  The loop of \<^verbatim>\<open>reduceNumber\<close>:
  \<^verbatim>\<open>for n := input / unit; n >= unit; n /= unit { div *= unit; exp++ }\<close>.
  It need not end (with \<^verbatim>\<open>unit = 1\<close> it never does), so it is a partial function:
  \<open>None\<close> is a loop that runs forever.
\<close>

partial_function (option) reduceLoop :: "int64 \<Rightarrow> int64 \<Rightarrow> int64 \<Rightarrow> nat \<Rightarrow> (int64 \<times> nat) option" where
  "reduceLoop unit n dv exp =
     (if unit \<le>s n then reduceLoop unit (div64 n unit) (dv * unit) (exp + 1)
      else Some (dv, exp))"

declare reduceLoop.simps [code]

text \<open>
  \<^verbatim>\<open>func reduceNumber(input int64, unit int64, base string, prefixes string) string\<close>.
  The first branch formats with \<^verbatim>\<open>"%d "+base\<close>; \<^verbatim>\<open>base\<close> is \<^verbatim>\<open>"B"\<close> at the only call, so
  the format has the one verb. The second branch prints a \<^verbatim>\<open>float64\<close> quotient with
  \<^verbatim>\<open>%.1f\<close>: the parameter \<open>fmtF\<close> stands for that formatting of
  \<^verbatim>\<open>float64(input)/float64(div)\<close>. \<^verbatim>\<open>prefixes[exp]\<close> panics out of range, and the
  division panics when \<^verbatim>\<open>unit\<close> is 0.
\<close>

definition reduceNumber ::
  "(int64 \<Rightarrow> int64 \<Rightarrow> string) \<Rightarrow> int64 \<Rightarrow> int64 \<Rightarrow> string \<Rightarrow> string \<Rightarrow> (panic + string) option" where
  "reduceNumber fmtF input unit base prefixes' =
     (if input <s unit then Some (Inr (fmtD (sint input) @ '' '' @ base))
      else if unit = 0 then Some (Inl DivideByZero)
      else (case reduceLoop unit (div64 input unit) unit 0 of
              None \<Rightarrow> None
            | Some (dv, exp) \<Rightarrow>
                if exp < length prefixes'
                then Some (Inr (fmtF input dv @ '' '' @ [prefixes' ! exp] @ ''i'' @ base))
                else Some (Inl IndexOutOfRange)))"

definition byteCountIEC :: "(int64 \<Rightarrow> int64 \<Rightarrow> string) \<Rightarrow> int64 \<Rightarrow> (panic + string) option" where
  "byteCountIEC fmtF b = reduceNumber fmtF b 1024 ''B'' ''KMGTPEZY''"

subsection \<open>The configuration and findStructValueWithTag\<close>

text \<open>
  \<^verbatim>\<open>type ConfigIDP struct\<close> and \<^verbatim>\<open>type Config struct\<close>. \<^verbatim>\<open>oauth2.Provider\<close> belongs to
  another package; \<^verbatim>\<open>main\<close> reads only its \<^verbatim>\<open>ID\<close>. A field of type \<^verbatim>\<open>*ConfigIDP\<close> is an
  option: \<open>None\<close> is the nil pointer.
\<close>

record ConfigIDP =
  idp_Auth :: string
  idp_ID :: string
  idp_Secret :: string

record Provider =
  prov_ID :: string

record Config =
  Root :: string
  Port :: int
  Themes :: "string list"
  HTTPBase :: string
  Auth :: string
  Discord :: "ConfigIDP option"
  Reddit :: "ConfigIDP option"
  GitHub :: "ConfigIDP option"
  Google :: "ConfigIDP option"
  Facebook :: "ConfigIDP option"
  Microsoft :: "ConfigIDP option"
  Providers :: "Provider list"
  CustomIds :: "ConfigIDP list"

text \<open>
  What package \<^verbatim>\<open>reflect\<close> shows of a \<^verbatim>\<open>Config\<close>: a \<^verbatim>\<open>reflect.Value\<close> is one of the
  field types' values or the zero \<^verbatim>\<open>Value\<close> (\<open>Invalid\<close>); a \<^verbatim>\<open>reflect.StructField\<close> has
  the field's name and its tag, the tag read as its list of \<^verbatim>\<open>key:"value"\<close> pairs.
  \<^verbatim>\<open>Tag.Get(key)\<close> is the value of the first pair with that key and the empty string
  when there is none.
\<close>

datatype reflectValue =
    Invalid
  | StringValue string
  | IntValue int
  | StringsValue "string list"
  | IDPValue "ConfigIDP option"
  | ProvidersValue "Provider list"
  | IDPsValue "ConfigIDP list"

record StructField =
  sf_Name :: string
  sf_Tag :: "(string \<times> string) list"

definition tagGet :: "(string \<times> string) list \<Rightarrow> string \<Rightarrow> string" where
  "tagGet tg key = (case map_of tg key of None \<Rightarrow> [] | Some v \<Rightarrow> v)"

text \<open>\<^verbatim>\<open>t.Field(i)\<close> for the type \<^verbatim>\<open>Config\<close>, in declaration order.\<close>

definition configFields :: "StructField list" where
  "configFields =
    [\<lparr>sf_Name = ''Root'', sf_Tag = [(''json'', ''root'')]\<rparr>,
     \<lparr>sf_Name = ''Port'', sf_Tag = [(''json'', ''port'')]\<rparr>,
     \<lparr>sf_Name = ''Themes'', sf_Tag = [(''json'', ''themes'')]\<rparr>,
     \<lparr>sf_Name = ''HTTPBase'', sf_Tag = [(''json'', ''base'')]\<rparr>,
     \<lparr>sf_Name = ''Auth'', sf_Tag = [(''json'', ''auth'')]\<rparr>,
     \<lparr>sf_Name = ''Discord'', sf_Tag = [(''json'', ''discord'')]\<rparr>,
     \<lparr>sf_Name = ''Reddit'', sf_Tag = [(''json'', ''reddit'')]\<rparr>,
     \<lparr>sf_Name = ''GitHub'', sf_Tag = [(''json'', ''github'')]\<rparr>,
     \<lparr>sf_Name = ''Google'', sf_Tag = [(''json'', ''google'')]\<rparr>,
     \<lparr>sf_Name = ''Facebook'', sf_Tag = [(''json'', ''facebook'')]\<rparr>,
     \<lparr>sf_Name = ''Microsoft'', sf_Tag = [(''json'', ''microsoft'')]\<rparr>,
     \<lparr>sf_Name = ''Providers'', sf_Tag = [(''json'', ''providers'')]\<rparr>,
     \<lparr>sf_Name = ''CustomIds'', sf_Tag = [(''json'', ''custom'')]\<rparr>]"

text \<open>The fields' values, in the same order, under the fields' names.\<close>

definition fieldValues :: "Config \<Rightarrow> (string \<times> reflectValue) list" where
  "fieldValues c =
    [(''Root'', StringValue (Root c)),
     (''Port'', IntValue (Port c)),
     (''Themes'', StringsValue (Themes c)),
     (''HTTPBase'', StringValue (HTTPBase c)),
     (''Auth'', StringValue (Auth c)),
     (''Discord'', IDPValue (Discord c)),
     (''Reddit'', IDPValue (Reddit c)),
     (''GitHub'', IDPValue (GitHub c)),
     (''Google'', IDPValue (Google c)),
     (''Facebook'', IDPValue (Facebook c)),
     (''Microsoft'', IDPValue (Microsoft c)),
     (''Providers'', ProvidersValue (Providers c)),
     (''CustomIds'', IDPsValue (CustomIds c))]"

text \<open>\<^verbatim>\<open>v.FieldByName(name)\<close>: the field of that name, the zero \<^verbatim>\<open>Value\<close> when there is none.\<close>

definition FieldByName :: "Config \<Rightarrow> string \<Rightarrow> reflectValue" where
  "FieldByName c n = (case map_of (fieldValues c) n of None \<Rightarrow> Invalid | Some v \<Rightarrow> v)"

text \<open>
  The loop of \<^verbatim>\<open>findStructValueWithTag\<close>, from index \<open>i\<close>:
  \<^verbatim>\<open>for i := 0; i < v.NumField(); i++ { f := t.Field(i); if f.Tag.Get(ttype) == tag { return v.FieldByName(f.Name) } }\<close>
  and after it \<^verbatim>\<open>return reflect.Zero(nil)\<close>, which panics.
\<close>

function findStructLoop :: "Config \<Rightarrow> string \<Rightarrow> string \<Rightarrow> nat \<Rightarrow> panic + reflectValue" where
  "findStructLoop v ttype tag i =
     (if i < length configFields
      then (let f = configFields ! i
            in if tagGet (sf_Tag f) ttype = tag then Inr (FieldByName v (sf_Name f))
               else findStructLoop v ttype tag (i + 1))
      else Inl ReflectPanic)"
  by pat_completeness auto
termination
  by (relation "measure (\<lambda>(v, ttype, tag, i). length configFields - i)") auto

declare findStructLoop.simps [simp del]

text \<open>
  \<^verbatim>\<open>func findStructValueWithTag(item interface{}, ttype string, tag string) reflect.Value\<close>.
  The body starts from \<^verbatim>\<open>reflect.ValueOf(config).Elem()\<close>, the global variable
  \<^verbatim>\<open>config *Config\<close>, here the first argument; on a nil pointer \<^verbatim>\<open>Elem()\<close> is the zero
  \<^verbatim>\<open>Value\<close> and \<^verbatim>\<open>v.Type()\<close> panics. The parameter \<open>item\<close> is of any type.
\<close>

definition findStructValueWithTag ::
  "Config option \<Rightarrow> 'a \<Rightarrow> string \<Rightarrow> string \<Rightarrow> panic + reflectValue" where
  "findStructValueWithTag config item ttype tag =
     (case config of
        None \<Rightarrow> Inl ReflectPanic
      | Some v \<Rightarrow> findStructLoop v ttype tag 0)"

subsection \<open>Sessions, requests and the response writer\<close>

text \<open>
  \<^verbatim>\<open>sess.Values\<close> maps keys to values of type \<^verbatim>\<open>interface{}\<close>; the code reads the keys
  \<^verbatim>\<open>"name"\<close> and \<^verbatim>\<open>"user"\<close> and asserts the values to be strings. A value is a string or
  something else; a key that is absent, or nil, is \<open>None\<close>.
\<close>

datatype sessionValue = StringVal string | OtherVal

type_synonym session = "string \<rightharpoonup> sessionValue"

text \<open>\<^verbatim>\<open>type UserRow struct\<close>, and \<^verbatim>\<open>UserRow{}\<close>, its zero value.\<close>

record UserRow =
  u_id :: int
  u_snowflake :: string
  u_admin :: bool
  u_name :: string

definition zeroUserRow :: UserRow where
  "zeroUserRow = \<lparr>u_id = 0, u_snowflake = [], u_admin = False, u_name = []\<rparr>"

text \<open>
  A \<^verbatim>\<open>*http.Request\<close>: its method, the path it asks for (\<^verbatim>\<open>r.URL.Path\<close>), the session
  that \<^verbatim>\<open>etc.GetSession(r)\<close> finds for it, and whether \<^verbatim>\<open>r.ParseForm()\<close> succeeds.
\<close>

record Request =
  Method :: string
  URLPath :: string
  Session :: session
  ParseFormOK :: bool

text \<open>
  The sessions the two functions below are written for. Both assert with \<^verbatim>\<open>.(string)\<close>
  that the values under \<^verbatim>\<open>"user"\<close> and \<^verbatim>\<open>"name"\<close> are strings, and
  \<^verbatim>\<open>writeUserDenied\<close> reads the user whenever there is a name: a session holds strings
  under the two keys, and a name only together with a user. The sessions are kept in
  signed cookies that only the server writes; the login callback that writes them is
  not among the sources.
\<close>

definition sessionAsWritten :: "session \<Rightarrow> bool" where
  "sessionAsWritten s =
     ((case s ''user'' of Some OtherVal \<Rightarrow> False | _ \<Rightarrow> True)
      \<and> (case s ''name'' of
            None \<Rightarrow> True
          | Some OtherVal \<Rightarrow> False
          | Some (StringVal sessName) \<Rightarrow>
              (case s ''user'' of Some (StringVal sessID) \<Rightarrow> True | _ \<Rightarrow> False)))"

text \<open>
  The global variables the functions read: \<^verbatim>\<open>httpBase\<close> and
  \<^verbatim>\<open>oauth2Provider.idp.NamePrefix\<close>.
\<close>

record Globals =
  httpBase :: string
  NamePrefix :: string

text \<open>
  An \<^verbatim>\<open>http.ResponseWriter\<close> as a state: the status code once the header is written, and
  the pages written to the body. A page is the context that \<^verbatim>\<open>writeResponse\<close> hands to
  the template \<^verbatim>\<open>/response.hbs\<close>; the rendering itself belongs to the template engine.
  \<^verbatim>\<open>WriteHeader\<close> sets the status once (a later call changes nothing), and the first
  write to the body sends status 200 when no header was written before.
\<close>

record Page =
  p_title :: string
  p_message :: string
  p_link :: string
  p_base :: string

record ResponseWriter =
  status :: "nat option"
  pages :: "Page list"

definition newResponseWriter :: ResponseWriter where
  "newResponseWriter = \<lparr>status = None, pages = []\<rparr>"

definition StatusForbidden :: nat where
  "StatusForbidden = 403"

definition WriteHeader :: "nat \<Rightarrow> ResponseWriter \<Rightarrow> ResponseWriter" where
  "WriteHeader code w = (if status w = None then w\<lparr>status := Some code\<rparr> else w)"

definition writeHandlebarsFile :: "ResponseWriter \<Rightarrow> Page \<Rightarrow> ResponseWriter" where
  "writeHandlebarsFile w ctx =
     w\<lparr>status := Some (case status w of None \<Rightarrow> 200 | Some s \<Rightarrow> s),
       pages := pages w @ [ctx]\<rparr>"

text \<open>\<^verbatim>\<open>func writeResponse(r, w, title, message, link)\<close>.\<close>

definition writeResponse :: "Globals \<Rightarrow> ResponseWriter \<Rightarrow> string \<Rightarrow> string \<Rightarrow> string \<Rightarrow> ResponseWriter" where
  "writeResponse g w title message link =
     writeHandlebarsFile w
       \<lparr>p_title = title, p_message = message, p_link = link, p_base = httpBase g\<rparr>"

text \<open>\<^verbatim>\<open>func writeAPIResponse(r, w, good bool, message string)\<close>.\<close>

definition writeAPIResponse :: "Globals \<Rightarrow> ResponseWriter \<Rightarrow> bool \<Rightarrow> string \<Rightarrow> ResponseWriter" where
  "writeAPIResponse g w good message =
     (let w1 = (if \<not> good then WriteHeader StatusForbidden w else w);
          titlemsg = (if good then ''Update Successful'' else ''Update Failed'')
      in writeResponse g w1 titlemsg message
           (''Return to <a href='' @ [CHR 0x27] @ httpBase g @ ''admin'' @ [CHR 0x27]
              @ ''>the dashboard</a>.''))"

text \<open>
  The first lines of \<^verbatim>\<open>writeUserDenied\<close>, which build \<^verbatim>\<open>me\<close>: when the session has a
  name, \<^verbatim>\<open>F("%s%s (%s)", NamePrefix, sessName.(string), sessID.(string))\<close>; each type
  assertion panics on a value that is not a string, the second also on a missing user.
\<close>

definition sessionMe :: "Globals \<Rightarrow> session \<Rightarrow> panic + string" where
  "sessionMe g sess =
     (case sess ''name'' of
        None \<Rightarrow> Inr []
      | Some OtherVal \<Rightarrow> Inl InterfaceConversion
      | Some (StringVal sessName) \<Rightarrow>
          (case sess ''user'' of
             Some (StringVal sessID) \<Rightarrow> Inr (NamePrefix g @ sessName @ '' ('' @ sessID @ '')'')
           | _ \<Rightarrow> Inl InterfaceConversion))"

text \<open>
  \<^verbatim>\<open>func writeUserDenied(r, w, fileOrAdmin bool, showLogin bool)\<close>.
\<close>

definition writeUserDenied ::
  "Globals \<Rightarrow> Request \<Rightarrow> ResponseWriter \<Rightarrow> bool \<Rightarrow> bool \<Rightarrow> panic + ResponseWriter" where
  "writeUserDenied g r w fileOrAdmin showLogin =
     (case sessionMe g (Session r) of
        Inl p \<Rightarrow> Inl p
      | Inr me \<Rightarrow>
          (let message =
                 (if fileOrAdmin
                  then (if showLogin
                        then ''You'' @ me @ '' do not have access to this resource.''
                        else ''Unable to find the requested resource for you '' @ me @ ''.'')
                  else ''Admin priviledge required. Access denied.'')
           in if showLogin
              then Inr (writeResponse g (WriteHeader StatusForbidden w) ''Forbidden'' message
                          (''Please <a href='' @ [CHR 0x27] @ httpBase g @ ''login'' @ [CHR 0x27]
                             @ ''>Log In</a>.''))
              else Inr (writeResponse g (WriteHeader StatusForbidden w) ''Not Found'' message [])))"

text \<open>
  \<^verbatim>\<open>func apiBootstrapRequireLogin(r, w, method string, requireAdmin bool) (*sessions.Session, UserRow, error)\<close>.
  \<^verbatim>\<open>E("")\<close> makes an error value; the nil session and the nil error are \<open>None\<close>. The
  parameter \<open>queryUserBySnowflake\<close> stands for the function of that name, which looks
  the user up in the store and returns the row and whether there is one.
\<close>

datatype goError = E string

definition apiBootstrapRequireLogin ::
  "Globals \<Rightarrow> (string \<Rightarrow> UserRow \<times> bool) \<Rightarrow> Request \<Rightarrow> ResponseWriter \<Rightarrow> string \<Rightarrow> bool
     \<Rightarrow> panic + (ResponseWriter \<times> session option \<times> UserRow \<times> goError option)" where
  "apiBootstrapRequireLogin g queryUserBySnowflake r w method requireAdmin =
     (if Method r \<noteq> method
      then Inr (writeAPIResponse g w False (''This action requires using HTTP '' @ method),
                None, zeroUserRow, Some (E []))
      else
        (case Session r ''user'' of
           None \<Rightarrow>
             (case writeUserDenied g r w True True of
                Inl p \<Rightarrow> Inl p
              | Inr w' \<Rightarrow> Inr (w', None, zeroUserRow, Some (E [])))
         | Some OtherVal \<Rightarrow> Inl InterfaceConversion
         | Some (StringVal userID) \<Rightarrow>
             (let (user, ok) = queryUserBySnowflake userID
              in if \<not> ok
                 then Inr (writeResponse g w ''Access Denied''
                             (''This action requires being a member of this server. ('' @ userID @ '')'')
                             [],
                           None, zeroUserRow, Some (E []))
                 else if requireAdmin \<and> \<not> u_admin user
                 then Inr (writeAPIResponse g w False
                             (''This action requires being a site administrator. ('' @ userID @ '')''),
                           None, zeroUserRow, Some (E []))
                 else if \<not> ParseFormOK r
                 then Inr (writeAPIResponse g w False ''Error parsing form data'',
                           None, zeroUserRow, Some (E []))
                 else Inr (w, Some (Session r), user, None))))"

subsection \<open>The list of UI-asset sources\<close>

text \<open>
  The elements of \<^verbatim>\<open>dirs []http.FileSystem\<close> in \<^verbatim>\<open>main\<close>: a directory \<^verbatim>\<open>http.Dir(loc)\<close> or
  the embedded bundle \<^verbatim>\<open>packr.New(name, path)\<close>.
\<close>

datatype fileSystem = Dir string | Box string string

text \<open>\<^verbatim>\<open>DieOnError\<close> ends the process with the message of the failed assertion.\<close>

datatype startupError = Die string

text \<open>
  One of the two theme loops of \<^verbatim>\<open>main\<close>:
  \<^verbatim>\<open>for _, item := range themes { loc := metaDir + "/themes/" + item; DieOnError(Assert(DoesDirectoryExist(loc), ...)); dirs = append(dirs, http.Dir(loc)) }\<close>.
  \<open>DoesDirectoryExist\<close> is the state of the disk at startup.
\<close>

definition themeLoc :: "string \<Rightarrow> string \<Rightarrow> string" where
  "themeLoc metaDir item = metaDir @ ''/themes/'' @ item"

fun addThemes ::
  "(string \<Rightarrow> bool) \<Rightarrow> string \<Rightarrow> string list \<Rightarrow> fileSystem list \<Rightarrow> startupError + fileSystem list" where
  "addThemes DoesDirectoryExist metaDir [] dirs = Inr dirs"
| "addThemes DoesDirectoryExist metaDir (item # items) dirs =
     (let loc = themeLoc metaDir item
      in if DoesDirectoryExist loc
         then addThemes DoesDirectoryExist metaDir items (dirs @ [Dir loc])
         else Inl (Die ([CHR 0x27] @ loc @ [CHR 0x27] @ '' does not exist!'')))"

text \<open>
  The value that \<^verbatim>\<open>main\<close> stores in \<^verbatim>\<open>wwFFS\<close>, once, before the server starts: the
  themes of the \<^verbatim>\<open>--theme\<close> flags, the themes of the configuration file, then
  \<^verbatim>\<open>http.Dir("./www/")\<close> and \<^verbatim>\<open>packr.New("", "./www/")\<close>.
\<close>

definition buildDirs ::
  "(string \<Rightarrow> bool) \<Rightarrow> string \<Rightarrow> string list \<Rightarrow> string list \<Rightarrow> startupError + fileSystem list" where
  "buildDirs DoesDirectoryExist metaDir flagTheme configThemes =
     (case addThemes DoesDirectoryExist metaDir flagTheme [] of
        Inl e \<Rightarrow> Inl e
      | Inr dirs1 \<Rightarrow>
          (case addThemes DoesDirectoryExist metaDir configThemes dirs1 of
             Inl e \<Rightarrow> Inl e
           | Inr dirs2 \<Rightarrow> Inr ((dirs2 @ [Dir ''./www/'']) @ [Box [] ''./www/''])))"

text \<open>
  Modelled from the spec: \<^verbatim>\<open>types.MultiplexFileSystem\<close> and its \<^verbatim>\<open>Open\<close> belong to the
  library \<^verbatim>\<open>nektro/go-util\<close>, which is not among the sources. The specification says:
  the overlay is an ordered list of sources, first match wins, with no merge across
  sources, and "not found" only when no source has the path. \<open>files fs path\<close> is the
  content that source \<open>fs\<close> has at \<open>path\<close>, if any.
\<close>

fun multiplexOpen ::
  "(fileSystem \<Rightarrow> string \<rightharpoonup> 'c) \<Rightarrow> fileSystem list \<Rightarrow> string \<Rightarrow> (fileSystem \<times> 'c) option" where
  "multiplexOpen files [] path = None"
| "multiplexOpen files (fs # rest) path =
     (case files fs path of
        Some content \<Rightarrow> Some (fs, content)
      | None \<Rightarrow> multiplexOpen files rest path)"

subsection \<open>The tables created at startup\<close>

text \<open>
  The store is the library \<^verbatim>\<open>nektro/go-util/sqlite\<close>, which is not among the sources. A
  schema is the list of the store's tables, each with its columns (name and type).
  \<^verbatim>\<open>CreateTable(name, pk, columns)\<close> creates the table, the primary-key column first, when
  the store has no table of that name. What the library does to a table that is already
  there is the parameter \<open>onExisting\<close>: from the table's columns and the columns asked
  for, the columns the table has afterwards.
\<close>

type_synonym column = "string \<times> string"

type_synonym schema = "(string \<times> column list) list"

definition CreateTable ::
  "(column list \<Rightarrow> column list \<Rightarrow> column list) \<Rightarrow> schema \<Rightarrow> string \<Rightarrow> column \<Rightarrow> column list
     \<Rightarrow> schema" where
  "CreateTable onExisting s name pk cols =
     (if name \<in> set (map fst s)
      then map (\<lambda>(n, cs). if n = name then (n, onExisting cs (pk # cols)) else (n, cs)) s
      else s @ [(name, pk # cols)])"

text \<open>The three \<^verbatim>\<open>database.CreateTable\<close> calls of \<^verbatim>\<open>main\<close>, in order.\<close>

definition createTables :: "(column list \<Rightarrow> column list \<Rightarrow> column list) \<Rightarrow> schema \<Rightarrow> schema" where
  "createTables onExisting s0 =
     (let s1 = CreateTable onExisting s0 ''users'' (''id'', ''int primary key'')
                 [(''snowflake'', ''text''), (''admin'', ''tinyint(1)''), (''name'', ''text'')];
          s2 = CreateTable onExisting s1 ''access'' (''id'', ''int primary key'')
                 [(''user'', ''int''), (''path'', ''text'')];
          s3 = CreateTable onExisting s2 ''shares'' (''id'', ''int primary key'')
                 [(''hash'', ''text''), (''path'', ''text'')]
      in s3)"

definition columnNames :: "schema \<Rightarrow> string \<Rightarrow> string list option" where
  "columnNames s name = map_option (map fst) (map_of s name)"

subsection \<open>Rows, and the creation of the admin at startup\<close>

text \<open>\<^verbatim>\<open>type UserAccessRow struct\<close>.\<close>

record UserAccessRow =
  a_id :: int
  a_user :: int
  a_path :: string

text \<open>The rows of the tables \<^verbatim>\<open>users\<close> and \<^verbatim>\<open>access\<close>, in insertion order.\<close>

record Database =
  users :: "UserRow list"
  access :: "UserAccessRow list"

text \<open>
  Modelled from the spec: \<^verbatim>\<open>queryUserBySnowflake\<close>, \<^verbatim>\<open>queryDoAddUser\<close> and \<^verbatim>\<open>queryAccess\<close>
  are functions of this repository that are not among the sources, and
  \<^verbatim>\<open>QueryNextID\<close>, \<^verbatim>\<open>QueryDoUpdate\<close> and \<^verbatim>\<open>Query\<close> belong to the store's library. The
  specification says: simple CRUD by id or indexed column; a user is looked up by its
  external id; a user's grants are the path prefixes of its access rows; the "next id"
  is computed by the client from the table, not generated by the store. The next id is
  taken to be one more than the greatest id of the table (1 for an empty table), and a
  row whose id is already in the table is refused (\<^verbatim>\<open>id int primary key\<close>).
\<close>

definition queryUserBySnowflake :: "Database \<Rightarrow> string \<Rightarrow> UserRow \<times> bool" where
  "queryUserBySnowflake db snowflake =
     (case find (\<lambda>u. u_snowflake u = snowflake) (users db) of
        None \<Rightarrow> (zeroUserRow, False)
      | Some u \<Rightarrow> (u, True))"

fun maxId :: "int list \<Rightarrow> int" where
  "maxId [] = 0"
| "maxId [i] = i"
| "maxId (i # j # ids) = max i (maxId (j # ids))"

definition nextId :: "int list \<Rightarrow> int" where
  "nextId ids = maxId ids + 1"

definition tableIds :: "Database \<Rightarrow> string \<Rightarrow> int list" where
  "tableIds db table =
     (if table = ''users'' then map u_id (users db)
      else if table = ''access'' then map a_id (access db)
      else [])"

definition QueryNextID :: "Database \<Rightarrow> string \<Rightarrow> int" where
  "QueryNextID db table = nextId (tableIds db table)"

definition queryDoAddUser :: "Database \<Rightarrow> int \<Rightarrow> string \<Rightarrow> bool \<Rightarrow> string \<Rightarrow> Database" where
  "queryDoAddUser db uid snowflake admin name =
     (if uid \<in> set (map u_id (users db)) then db
      else db\<lparr>users := users db
                 @ [\<lparr>u_id = uid, u_snowflake = snowflake, u_admin = admin, u_name = name\<rparr>]\<rparr>)"

text \<open>\<^verbatim>\<open>database.QueryDoUpdate("users", "admin", "1", "id", id)\<close>.\<close>

definition QueryDoUpdate_users_admin :: "Database \<Rightarrow> int \<Rightarrow> Database" where
  "QueryDoUpdate_users_admin db uid =
     db\<lparr>users := map (\<lambda>u. if u_id u = uid then u\<lparr>u_admin := True\<rparr> else u) (users db)\<rparr>"

text \<open>\<^verbatim>\<open>database.Query(true, F("insert into access values ('%d', '%d', '/')", aid, nu.id))\<close>.\<close>

definition Query_insert_access :: "Database \<Rightarrow> int \<Rightarrow> int \<Rightarrow> string \<Rightarrow> Database" where
  "Query_insert_access db aid uid path =
     (if aid \<in> set (map a_id (access db)) then db
      else db\<lparr>access := access db @ [\<lparr>a_id = aid, a_user = uid, a_path = path\<rparr>]\<rparr>)"

definition queryAccess :: "Database \<Rightarrow> UserRow \<Rightarrow> string list" where
  "queryAccess db user = map a_path (filter (\<lambda>a. a_user a = u_id user) (access db))"

text \<open>\<^verbatim>\<open>Contains\<close> of \<^verbatim>\<open>nektro/go-util/util\<close>: whether the slice has the item.\<close>

definition Contains :: "string list \<Rightarrow> string \<Rightarrow> bool" where
  "Contains stack item = (item \<in> set stack)"

text \<open>
  The block "admin creation from (optional) CLI argument" of \<^verbatim>\<open>main\<close>, statement by
  statement; \<open>adminUserStep\<close> is its first \<^verbatim>\<open>if\<close>/\<^verbatim>\<open>else\<close>, \<open>adminCreation\<close> the whole
  block.
\<close>

definition adminUserStep :: "Database \<Rightarrow> string \<Rightarrow> Database" where
  "adminUserStep db flagAdmin =
     (let (uu, ok) = queryUserBySnowflake db flagAdmin
      in if \<not> ok
         then (let uid = QueryNextID db ''users''
               in queryDoAddUser db uid flagAdmin True [])
         else if \<not> u_admin uu then QueryDoUpdate_users_admin db (u_id uu)
         else db)"

definition adminCreation :: "Database \<Rightarrow> string \<Rightarrow> Database" where
  "adminCreation db flagAdmin =
     (if flagAdmin \<noteq> []
      then (let db1 = adminUserStep db flagAdmin;
                (nu, _) = queryUserBySnowflake db1 flagAdmin
            in if \<not> Contains (queryAccess db1 nu) ''/''
               then (let aid = QueryNextID db1 ''access''
                     in Query_insert_access db1 aid (u_id nu) ''/'')
               else db1)
      else db)"

text \<open>
  Two clients that allocate an id for one table, the table seen as the list of its ids.
  A client first reads the next id (\<^verbatim>\<open>QueryNextID\<close>) and later inserts its row under the
  id it read; a schedule is the order in which the store sees these steps.
\<close>

datatype client = ClientA | ClientB

datatype allocStep = ReadNext client | InsertRow client

record allocState =
  ids :: "int list"
  readA :: "int option"
  readB :: "int option"

fun allocExec :: "allocStep \<Rightarrow> allocState \<Rightarrow> allocState" where
  "allocExec (ReadNext ClientA) s = s\<lparr>readA := Some (nextId (ids s))\<rparr>"
| "allocExec (ReadNext ClientB) s = s\<lparr>readB := Some (nextId (ids s))\<rparr>"
| "allocExec (InsertRow ClientA) s =
     (case readA s of
        None \<Rightarrow> s
      | Some i \<Rightarrow> if i \<in> set (ids s) then s else s\<lparr>ids := ids s @ [i]\<rparr>)"
| "allocExec (InsertRow ClientB) s =
     (case readB s of
        None \<Rightarrow> s
      | Some i \<Rightarrow> if i \<in> set (ids s) then s else s\<lparr>ids := ids s @ [i]\<rparr>)"

definition allocRun :: "allocStep list \<Rightarrow> allocState \<Rightarrow> allocState" where
  "allocRun schedule s = fold allocExec schedule s"

subsection \<open>What startup persists and what it rebuilds\<close>

text \<open>
  The part of \<^verbatim>\<open>main\<close> from "database initialization" to the assignment of
  \<^verbatim>\<open>wwFFS\<close>, as one function. What is persisted is the store: its tables and their rows.
  What is local to the process is the overlay \<^verbatim>\<open>wwFFS\<close>, built by the theme loops, and
  the index. \<^verbatim>\<open>main\<close> starts the index with \<^verbatim>\<open>go initFsWatcher()\<close>, whose code is not
  among the sources.

  Modelled from the spec: at startup the index is seeded by a full walk of the served
  root. The parameter \<open>initFsWatcher\<close> stands for that walk, a function of the root
  directory.

  The store is written before the theme checks, so it is changed also by a startup that
  ends in \<^verbatim>\<open>DieOnError\<close> there.
\<close>

record Store =
  tables :: schema
  rows :: Database

definition startup ::
  "(column list \<Rightarrow> column list \<Rightarrow> column list) \<Rightarrow> (string \<Rightarrow> bool) \<Rightarrow> (string \<Rightarrow> 'i)
     \<Rightarrow> string \<Rightarrow> string \<Rightarrow> string list \<Rightarrow> string list \<Rightarrow> string \<Rightarrow> Store
     \<Rightarrow> Store \<times> (startupError + fileSystem list \<times> 'i)" where
  "startup onExisting DoesDirectoryExist initFsWatcher rootDir metaDir flagTheme configThemes
       flagAdmin st =
     (let st1 = st\<lparr>tables := createTables onExisting (tables st)\<rparr>;
          st2 = st1\<lparr>rows := adminCreation (rows st1) flagAdmin\<rparr>;
          index = initFsWatcher rootDir
      in (st2,
          case buildDirs DoesDirectoryExist metaDir flagTheme configThemes of
            Inl e \<Rightarrow> Inl e
          | Inr dirs \<Rightarrow> Inr (dirs, index)))"

subsection \<open>The path access model\<close>

text \<open>
  Modelled from the spec: \<^verbatim>\<open>isPermitted\<close> is not among the sources (\<^verbatim>\<open>main.go\<close> only tests
  \<^verbatim>\<open>Contains(queryAccess(nu), "/")\<close>). The specification says: \<^verbatim>\<open>isPermitted(grants, target)\<close>
  is true iff some grant \<open>g\<close> equals \<open>target\<close> or \<open>target\<close> is a path-segment descendant of
  \<open>g\<close>; segment boundaries matter; \<^verbatim>\<open>"/"\<close> matches everything. A path is read as the list
  of its segments, the non-empty pieces between slashes, and a descendant of \<open>g\<close> is a
  path whose segments start with all the segments of \<open>g\<close> and go on.
\<close>

fun splitPath :: "string \<Rightarrow> string list" where
  "splitPath [] = [[]]"
| "splitPath (c # cs) =
     (if c = CHR ''/'' then [] # splitPath cs
      else (case splitPath cs of
              [] \<Rightarrow> [[c]]
            | seg # segs \<Rightarrow> (c # seg) # segs))"

definition segments :: "string \<Rightarrow> string list" where
  "segments p = filter (\<lambda>seg. seg \<noteq> []) (splitPath p)"

definition isDescendant :: "string \<Rightarrow> string \<Rightarrow> bool" where
  "isDescendant g target = strict_prefix (segments g) (segments target)"

definition isPermitted :: "string set \<Rightarrow> string \<Rightarrow> bool" where
  "isPermitted grants target = (\<exists>g \<in> grants. g = target \<or> isDescendant g target)"

section \<open>Properties\<close>

subsection \<open>The server port\<close>

lemma findFirstNonZero_zeros: "\<forall>v \<in> set vs. v = 0 \<Longrightarrow> findFirstNonZero vs = 0"
  by (induction vs) auto

lemma findFirstNonZero_first:
  "\<forall>v \<in> set pre. v = 0 \<Longrightarrow> v \<noteq> 0 \<Longrightarrow> findFirstNonZero (pre @ v # post) = v"
  by (induction pre) auto

text \<open>
  Claim C9. \<^verbatim>\<open>findFirstNonZero\<close> returns the first argument that is not 0, and 0 when every
  argument is 0. The server port is therefore the \<^verbatim>\<open>--port\<close> flag when that is not 0,
  else the configuration file's port when that is not 0, else 8000.
\<close>

theorem findFirstNonZero_port:
  "((\<forall>v \<in> set pre. v = 0) \<and> v \<noteq> 0 \<longrightarrow> findFirstNonZero (pre @ v # post) = v)
   \<and> ((\<forall>v \<in> set vs. v = 0) \<longrightarrow> findFirstNonZero vs = 0)
   \<and> opPort flagPort configPort =
       (if flagPort \<noteq> 0 then flagPort else if configPort \<noteq> 0 then configPort else 8000)
   \<and> opPort 0 0 = 8000"
  by (simp add: findFirstNonZero_zeros findFirstNonZero_first opPort_def)

theorem findFirstNonZero_port_witness:
  "findFirstNonZero ([0, 0] @ 7 # [0, 9]) = 7
   \<and> findFirstNonZero [0, 0, 0] = 0
   \<and> opPort 0 8080 = 8080
   \<and> opPort 0 0 = 8000"
  using findFirstNonZero_port [of "[0, 0]" 7 "[0, 9]" "[0, 0, 0]" 0 8080]
  by simp

subsection \<open>Byte counts below one unit\<close>

lemma below_ten: "d < 10 \<Longrightarrow> d \<in> {0, 1, 2, 3, 4, 5, 6, 7, 8, 9::nat}"
  by auto

lemma digitChar_isDigit: "d < 10 \<Longrightarrow> isDigit (digitChar d)"
  by (drule below_ten) (auto simp: isDigit_def digitChar_def)

lemma digitVal_digitChar: "d < 10 \<Longrightarrow> digitVal (digitChar d) = d"
  by (drule below_ten) (auto simp: digitVal_def digitChar_def)

lemma decimalNat_digits: "list_all isDigit (decimalNat n)"
proof (induction n rule: decimalNat.induct)
  case (1 n)
  show ?case
  proof (cases "n < 10")
    case True
    then show ?thesis by (subst decimalNat.simps) (simp add: digitChar_isDigit)
  next
    case False
    with 1 show ?thesis by (subst decimalNat.simps) (simp add: digitChar_isDigit)
  qed
qed

lemma decimalValue_snoc: "decimalValue (ds @ [c]) = 10 * decimalValue ds + digitVal c"
  by (simp add: decimalValue_def)

lemma decimalValue_decimalNat: "decimalValue (decimalNat n) = n"
proof (induction n rule: decimalNat.induct)
  case (1 n)
  show ?case
  proof (cases "n < 10")
    case True
    then show ?thesis
      by (subst decimalNat.simps) (simp add: decimalValue_def digitVal_digitChar)
  next
    case False
    with 1 have "decimalValue (decimalNat (n div 10)) = n div 10" by simp
    with False show ?thesis
      by (subst decimalNat.simps) (simp add: decimalValue_snoc digitVal_digitChar)
  qed
qed

lemma reduceNumber_below_unit:
  "input <s unit \<Longrightarrow>
   reduceNumber fmtF input unit base prefixes' = Some (Inr (fmtD (sint input) @ '' '' @ base))"
  by (simp add: reduceNumber_def)

text \<open>
  Claim C10. For every \<^verbatim>\<open>int64\<close> \<open>b\<close> with \<open>0 \<le> b < 1024\<close>, \<^verbatim>\<open>byteCountIEC(b)\<close> returns the
  decimal representation of \<open>b\<close> followed by \<^verbatim>\<open>" B"\<close>, with no binary prefix: the result
  is a string of decimal digits whose value is \<open>b\<close>, then a space and \<^verbatim>\<open>B\<close>, whatever the
  formatting of the other branch does.
\<close>

theorem byteCountIEC_below_unit:
  assumes "0 \<le> sint b" and "sint b < 1024"
  shows "byteCountIEC fmtF b = Some (Inr (decimalNat (nat (sint b)) @ '' B''))
         \<and> list_all isDigit (decimalNat (nat (sint b)))
         \<and> int (decimalValue (decimalNat (nat (sint b)))) = sint b"
proof -
  have "b <s 1024"
    using assms by (simp add: word_sless_alt)
  then have "byteCountIEC fmtF b = Some (Inr (fmtD (sint b) @ '' B''))"
    by (simp add: byteCountIEC_def reduceNumber_below_unit)
  moreover have "fmtD (sint b) = decimalNat (nat (sint b))"
    using assms by (simp add: fmtD_def)
  ultimately show ?thesis
    using assms by (simp add: decimalNat_digits decimalValue_decimalNat)
qed

theorem byteCountIEC_below_unit_witness:
  "\<forall>fmtF. byteCountIEC fmtF 1023 = Some (Inr ''1023 B'')
          \<and> byteCountIEC fmtF 0 = Some (Inr ''0 B'')
          \<and> decimalValue ''1023'' = 1023"
  using byteCountIEC_below_unit [of 1023] byteCountIEC_below_unit [of 0]
  by (simp add: decimalNat.simps digitChar_def)

subsection \<open>findStructValueWithTag reads the global configuration\<close>

lemma map_of_nth_distinct:
  "distinct (map fst xs) \<Longrightarrow> i < length xs \<Longrightarrow> map_of xs (fst (xs ! i)) = Some (snd (xs ! i))"
  by (simp add: map_of_eq_Some_iff)

lemma fieldValues_names: "map fst (fieldValues c) = map sf_Name configFields"
  by (simp add: fieldValues_def configFields_def)

lemma configFields_distinct: "distinct (map sf_Name configFields)"
  by (simp add: configFields_def)

lemma FieldByName_nth:
  assumes "i < length configFields"
  shows "FieldByName c (sf_Name (configFields ! i)) = snd (fieldValues c ! i)"
proof -
  have len: "length (fieldValues c) = length configFields"
    using fieldValues_names [of c] by (metis length_map)
  have "fst (fieldValues c ! i) = sf_Name (configFields ! i)"
    using assms len fieldValues_names [of c] by (metis nth_map)
  moreover have "map_of (fieldValues c) (fst (fieldValues c ! i)) = Some (snd (fieldValues c ! i))"
    using assms len configFields_distinct
    by (intro map_of_nth_distinct) (simp_all add: fieldValues_names)
  ultimately show ?thesis by (simp add: FieldByName_def)
qed

lemma findStructLoop_first:
  assumes "k < length configFields"
    and "tagGet (sf_Tag (configFields ! k)) ttype = tag"
    and "\<forall>j. i \<le> j \<and> j < k \<longrightarrow> tagGet (sf_Tag (configFields ! j)) ttype \<noteq> tag"
    and "i \<le> k"
  shows "findStructLoop v ttype tag i = Inr (FieldByName v (sf_Name (configFields ! k)))"
  using assms
proof (induction "k - i" arbitrary: i)
  case 0
  then have "i = k" by simp
  with 0 show ?case by (subst findStructLoop.simps) simp
next
  case (Suc d)
  then have lt: "i < k" by simp
  with Suc.prems have ne: "tagGet (sf_Tag (configFields ! i)) ttype \<noteq> tag" by simp
  have "findStructLoop v ttype tag (i + 1) = Inr (FieldByName v (sf_Name (configFields ! k)))"
    using Suc lt by (intro Suc.hyps) auto
  with ne lt Suc.prems(1) show ?case
    by (subst findStructLoop.simps) (simp add: Let_def)
qed

lemma findStructLoop_none:
  assumes "\<forall>j. i \<le> j \<and> j < length configFields \<longrightarrow> tagGet (sf_Tag (configFields ! j)) ttype \<noteq> tag"
  shows "findStructLoop v ttype tag i = Inl ReflectPanic"
  using assms
proof (induction "length configFields - i" arbitrary: i)
  case 0
  then show ?case by (subst findStructLoop.simps) simp
next
  case (Suc d)
  then have "findStructLoop v ttype tag (i + 1) = Inl ReflectPanic"
    by (intro Suc.hyps) auto
  with Suc.prems show ?case
    by (subst findStructLoop.simps) (simp add: Let_def)
qed

lemma findStructValueWithTag_discord:
  "findStructValueWithTag (Some c) item ''json'' ''discord'' = Inr (IDPValue (Discord c))"
  by (simp add: findStructValueWithTag_def findStructLoop.simps configFields_def tagGet_def
      FieldByName_def fieldValues_def)

text \<open>
  Claim C8. \<^verbatim>\<open>findStructValueWithTag\<close> never reads its parameter \<^verbatim>\<open>item\<close>: it reflects over
  the global \<^verbatim>\<open>config\<close>. Its result is the same for any two \<^verbatim>\<open>item\<close> arguments, of any
  types, and it is the value of the first field of \<^verbatim>\<open>Config\<close>, in declaration order,
  whose tag of kind \<^verbatim>\<open>ttype\<close> equals \<^verbatim>\<open>tag\<close>; with \<^verbatim>\<open>"json"\<close> and \<^verbatim>\<open>"discord"\<close> that is the
  field \<^verbatim>\<open>Discord\<close>. When no field has the tag, the call panics in \<^verbatim>\<open>reflect.Zero(nil)\<close>.
\<close>

theorem findStructValueWithTag_global_config:
  "findStructValueWithTag config (item :: 'a) ttype tag
     = findStructValueWithTag config (item' :: 'b) ttype tag
   \<and> (k < length configFields \<and> tagGet (sf_Tag (configFields ! k)) ttype = tag
        \<and> (\<forall>j < k. tagGet (sf_Tag (configFields ! j)) ttype \<noteq> tag)
      \<longrightarrow> findStructValueWithTag (Some c) item ttype tag = Inr (snd (fieldValues c ! k)))
   \<and> ((\<forall>j < length configFields. tagGet (sf_Tag (configFields ! j)) ttype \<noteq> tag)
      \<longrightarrow> findStructValueWithTag (Some c) item ttype tag = Inl ReflectPanic)
   \<and> findStructValueWithTag (Some c) item ''json'' ''discord'' = Inr (IDPValue (Discord c))"
proof (intro conjI impI)
  show "findStructValueWithTag config item ttype tag = findStructValueWithTag config item' ttype tag"
    by (simp add: findStructValueWithTag_def)
next
  assume h: "k < length configFields \<and> tagGet (sf_Tag (configFields ! k)) ttype = tag
        \<and> (\<forall>j < k. tagGet (sf_Tag (configFields ! j)) ttype \<noteq> tag)"
  then have "findStructLoop c ttype tag 0 = Inr (FieldByName c (sf_Name (configFields ! k)))"
    by (intro findStructLoop_first) auto
  with h show "findStructValueWithTag (Some c) item ttype tag = Inr (snd (fieldValues c ! k))"
    by (simp add: findStructValueWithTag_def FieldByName_nth)
next
  assume "\<forall>j < length configFields. tagGet (sf_Tag (configFields ! j)) ttype \<noteq> tag"
  then have "findStructLoop c ttype tag 0 = Inl ReflectPanic"
    by (intro findStructLoop_none) auto
  then show "findStructValueWithTag (Some c) item ttype tag = Inl ReflectPanic"
    by (simp add: findStructValueWithTag_def)
next
  show "findStructValueWithTag (Some c) item ''json'' ''discord'' = Inr (IDPValue (Discord c))"
    by (rule findStructValueWithTag_discord)
qed

theorem findStructValueWithTag_global_config_witness:
  "\<forall>c. findStructValueWithTag (Some c) (0::nat) ''json'' ''port''
          = findStructValueWithTag (Some c) ''some item'' ''json'' ''port''
      \<and> findStructValueWithTag (Some c) (0::nat) ''json'' ''port'' = Inr (IntValue (Port c))
      \<and> findStructValueWithTag (Some c) (0::nat) ''json'' ''nothing'' = Inl ReflectPanic"
proof (intro allI)
  fix c :: Config
  have first: "1 < length configFields \<and> tagGet (sf_Tag (configFields ! 1)) ''json'' = ''port''
      \<and> (\<forall>j < 1. tagGet (sf_Tag (configFields ! j)) ''json'' \<noteq> ''port'')"
    by (simp add: configFields_def tagGet_def)
  have "list_all (\<lambda>f. tagGet (sf_Tag f) ''json'' \<noteq> ''nothing'') configFields"
    by (simp add: configFields_def tagGet_def)
  then have none: "\<forall>j < length configFields. tagGet (sf_Tag (configFields ! j)) ''json'' \<noteq> ''nothing''"
    by (simp add: list_all_length)
  show "findStructValueWithTag (Some c) (0::nat) ''json'' ''port''
          = findStructValueWithTag (Some c) ''some item'' ''json'' ''port''
      \<and> findStructValueWithTag (Some c) (0::nat) ''json'' ''port'' = Inr (IntValue (Port c))
      \<and> findStructValueWithTag (Some c) (0::nat) ''json'' ''nothing'' = Inl ReflectPanic"
    using first none
      findStructValueWithTag_global_config
        [where config = "Some c" and item = "0::nat" and item' = "''some item''"
           and ttype = "''json''" and tag = "''port''" and k = 1 and c = c]
      findStructValueWithTag_global_config
        [where config = "Some c" and item = "0::nat" and item' = "''some item''"
           and ttype = "''json''" and tag = "''nothing''" and k = 0 and c = c]
    by (auto simp: fieldValues_def)
qed

subsection \<open>The denial page\<close>

lemma status_writeResponse:
  "status (writeResponse g (WriteHeader code w) title message link)
     = Some (case status w of None \<Rightarrow> code | Some s \<Rightarrow> s)"
  by (simp add: writeResponse_def writeHandlebarsFile_def WriteHeader_def split: option.splits)

lemma last_pages_writeResponse:
  "last (pages (writeResponse g w title message link))
     = \<lparr>p_title = title, p_message = message, p_link = link, p_base = httpBase g\<rparr>"
  by (simp add: writeResponse_def writeHandlebarsFile_def)

lemma sessionMe_written: "sessionAsWritten s \<Longrightarrow> \<exists>me. sessionMe g s = Inr me"
  by (auto simp: sessionAsWritten_def sessionMe_def split: option.splits sessionValue.splits)

lemma writeUserDenied_returns:
  "(\<exists>w'. writeUserDenied g r w fileOrAdmin showLogin = Inr w')
     \<longleftrightarrow> (\<exists>me. sessionMe g (Session r) = Inr me)"
  by (cases "sessionMe g (Session r)") (auto simp: writeUserDenied_def Let_def)

lemma writeUserDenied_session_only:
  "Session r = Session r' \<Longrightarrow>
   writeUserDenied g r w fileOrAdmin showLogin = writeUserDenied g r' w fileOrAdmin showLogin"
  by (simp add: writeUserDenied_def)

lemma writeUserDenied_status_403:
  assumes "status w = None" and "writeUserDenied g r w fileOrAdmin showLogin = Inr w'"
  shows "status w' = Some 403"
proof (cases "sessionMe g (Session r)")
  case (Inl p)
  with assms(2) show ?thesis by (simp add: writeUserDenied_def)
next
  case (Inr me)
  with assms show ?thesis
    by (cases showLogin)
       (auto simp: writeUserDenied_def Let_def status_writeResponse StatusForbidden_def)
qed

lemma writeUserDenied_written:
  assumes "status w = None" and "sessionAsWritten (Session r)"
  shows "\<exists>w'. writeUserDenied g r w fileOrAdmin showLogin = Inr w' \<and> status w' = Some 403"
proof -
  obtain w' where "writeUserDenied g r w fileOrAdmin showLogin = Inr w'"
    using sessionMe_written [OF assms(2), of g] writeUserDenied_returns [of g r w fileOrAdmin showLogin]
    by blast
  then show ?thesis
    using writeUserDenied_status_403 [OF assms(1)] by blast
qed

text \<open>
  The two branches write different pages: the one taken with \<^verbatim>\<open>showLogin\<close> is titled
  Forbidden and carries a log-in link, the other is titled Not Found and has no link.
  Which branch is taken is the caller's choice of \<^verbatim>\<open>showLogin\<close>.
\<close>

lemma writeUserDenied_page:
  assumes "writeUserDenied g r w True showLogin = Inr w'"
  shows "p_title (last (pages w')) = (if showLogin then ''Forbidden'' else ''Not Found'')
         \<and> (p_link (last (pages w')) = []) = (\<not> showLogin)"
proof (cases "sessionMe g (Session r)")
  case (Inl p)
  with assms show ?thesis by (simp add: writeUserDenied_def)
next
  case (Inr me)
  with assms show ?thesis
    by (cases showLogin) (auto simp: writeUserDenied_def Let_def last_pages_writeResponse)
qed

text \<open>
  Claim C2. \<^verbatim>\<open>writeUserDenied\<close> reads the session of the request and nothing else of it:
  for one principal and one choice of its two flags it writes the same response
  whatever path was asked for, so the response does not tell a path that is missing
  from a path that is forbidden. On a response whose header is not yet written, every
  page it writes goes out with status 403, and for every session as the server writes
  it, both of its branches, the Forbidden branch (\<^verbatim>\<open>showLogin\<close>) and the Not Found
  branch, do write the page with status 403.
\<close>

theorem writeUserDenied_same_status:
  "(Session r = Session r' \<longrightarrow>
      writeUserDenied g r w fileOrAdmin showLogin = writeUserDenied g r' w fileOrAdmin showLogin)
   \<and> (status w = None \<and> writeUserDenied g r w fileOrAdmin showLogin = Inr w'
        \<longrightarrow> status w' = Some 403)
   \<and> (status w = None \<and> sessionAsWritten (Session r) \<longrightarrow>
        (\<exists>w1 w2. writeUserDenied g r w fileOrAdmin True = Inr w1
                \<and> writeUserDenied g r w fileOrAdmin False = Inr w2
                \<and> status w1 = Some 403 \<and> status w2 = Some 403))"
proof (intro conjI impI)
  assume "Session r = Session r'"
  then show "writeUserDenied g r w fileOrAdmin showLogin
               = writeUserDenied g r' w fileOrAdmin showLogin"
    by (rule writeUserDenied_session_only)
next
  assume "status w = None \<and> writeUserDenied g r w fileOrAdmin showLogin = Inr w'"
  then show "status w' = Some 403"
    using writeUserDenied_status_403 by blast
next
  assume h: "status w = None \<and> sessionAsWritten (Session r)"
  then obtain w1 where 1: "writeUserDenied g r w fileOrAdmin True = Inr w1 \<and> status w1 = Some 403"
    using writeUserDenied_written [of w r g fileOrAdmin True] by blast
  from h obtain w2 where 2: "writeUserDenied g r w fileOrAdmin False = Inr w2 \<and> status w2 = Some 403"
    using writeUserDenied_written [of w r g fileOrAdmin False] by blast
  from 1 2 show "\<exists>w1 w2. writeUserDenied g r w fileOrAdmin True = Inr w1
                \<and> writeUserDenied g r w fileOrAdmin False = Inr w2
                \<and> status w1 = Some 403 \<and> status w2 = Some 403"
    by blast
qed

theorem writeUserDenied_same_status_witness:
  "writeUserDenied \<lparr>httpBase = ''/'', NamePrefix = ''@''\<rparr>
       \<lparr>Method = ''GET'', URLPath = ''/files/missing'',
        Session = [''name'' \<mapsto> StringVal ''ann'', ''user'' \<mapsto> StringVal ''42''],
        ParseFormOK = True\<rparr> newResponseWriter True False
     = writeUserDenied \<lparr>httpBase = ''/'', NamePrefix = ''@''\<rparr>
       \<lparr>Method = ''GET'', URLPath = ''/files/secret'',
        Session = [''name'' \<mapsto> StringVal ''ann'', ''user'' \<mapsto> StringVal ''42''],
        ParseFormOK = True\<rparr> newResponseWriter True False
   \<and> (\<exists>w1 w2.
        writeUserDenied \<lparr>httpBase = ''/'', NamePrefix = ''@''\<rparr>
          \<lparr>Method = ''GET'', URLPath = ''/files/missing'',
           Session = [''name'' \<mapsto> StringVal ''ann'', ''user'' \<mapsto> StringVal ''42''],
           ParseFormOK = True\<rparr> newResponseWriter True True = Inr w1
        \<and> writeUserDenied \<lparr>httpBase = ''/'', NamePrefix = ''@''\<rparr>
          \<lparr>Method = ''GET'', URLPath = ''/files/missing'',
           Session = [''name'' \<mapsto> StringVal ''ann'', ''user'' \<mapsto> StringVal ''42''],
           ParseFormOK = True\<rparr> newResponseWriter True False = Inr w2
        \<and> status w1 = Some 403 \<and> status w2 = Some 403)"
proof -
  let ?g = "\<lparr>httpBase = ''/'', NamePrefix = ''@''\<rparr>"
  let ?s = "[''name'' \<mapsto> StringVal ''ann'', ''user'' \<mapsto> StringVal ''42'']"
  let ?r = "\<lparr>Method = ''GET'', URLPath = ''/files/missing'', Session = ?s, ParseFormOK = True\<rparr>"
  let ?r' = "\<lparr>Method = ''GET'', URLPath = ''/files/secret'', Session = ?s, ParseFormOK = True\<rparr>"
  have same: "Session ?r = Session ?r'" by simp
  have written: "status newResponseWriter = None \<and> sessionAsWritten (Session ?r)"
    by (simp add: newResponseWriter_def sessionAsWritten_def)
  note inst = writeUserDenied_same_status
    [where r = ?r and r' = ?r' and g = ?g and w = newResponseWriter and fileOrAdmin = True
       and showLogin = False]
  have 1: "writeUserDenied ?g ?r newResponseWriter True False
            = writeUserDenied ?g ?r' newResponseWriter True False"
    using same by (rule inst [THEN conjunct1, THEN mp])
  have 2: "\<exists>w1 w2. writeUserDenied ?g ?r newResponseWriter True True = Inr w1
                \<and> writeUserDenied ?g ?r newResponseWriter True False = Inr w2
                \<and> status w1 = Some 403 \<and> status w2 = Some 403"
    using written by (rule inst [THEN conjunct2, THEN conjunct2, THEN mp])
  from 1 2 show ?thesis by (intro conjI)
qed

subsection \<open>The login gate of the admin API\<close>

lemma apiBootstrapRequireLogin_method:
  "Method r \<noteq> method \<Longrightarrow>
   \<exists>w'. apiBootstrapRequireLogin g q r w method requireAdmin
          = Inr (w', None, zeroUserRow, Some (E []))"
  by (simp add: apiBootstrapRequireLogin_def)

lemma apiBootstrapRequireLogin_no_user:
  assumes "sessionAsWritten (Session r)" and "Session r ''user'' = None"
  shows "\<exists>w'. apiBootstrapRequireLogin g q r w method requireAdmin
          = Inr (w', None, zeroUserRow, Some (E []))"
proof (cases "Method r = method")
  case False
  then show ?thesis by (rule apiBootstrapRequireLogin_method)
next
  case True
  obtain w' where "writeUserDenied g r w True True = Inr w'"
    using sessionMe_written [OF assms(1), of g] writeUserDenied_returns [of g r w True True]
    by blast
  with True assms(2) show ?thesis by (simp add: apiBootstrapRequireLogin_def)
qed

lemma apiBootstrapRequireLogin_unknown_user:
  "Session r ''user'' = Some (StringVal userID) \<Longrightarrow> \<not> snd (q userID) \<Longrightarrow>
   \<exists>w'. apiBootstrapRequireLogin g q r w method requireAdmin
          = Inr (w', None, zeroUserRow, Some (E []))"
  by (cases "q userID") (auto simp: apiBootstrapRequireLogin_def)

lemma apiBootstrapRequireLogin_not_admin:
  "Session r ''user'' = Some (StringVal userID) \<Longrightarrow> \<not> u_admin (fst (q userID)) \<Longrightarrow>
   \<exists>w'. apiBootstrapRequireLogin g q r w method True
          = Inr (w', None, zeroUserRow, Some (E []))"
  by (cases "q userID") (auto simp: apiBootstrapRequireLogin_def)

lemma apiBootstrapRequireLogin_bad_form:
  "Session r ''user'' = Some (StringVal userID) \<Longrightarrow> \<not> ParseFormOK r \<Longrightarrow>
   \<exists>w'. apiBootstrapRequireLogin g q r w method requireAdmin
          = Inr (w', None, zeroUserRow, Some (E []))"
  by (cases "q userID") (auto simp: apiBootstrapRequireLogin_def)

lemma apiBootstrapRequireLogin_success:
  "apiBootstrapRequireLogin g q r w method True = Inr (w', Some s, user, None)
   \<longleftrightarrow> Method r = method
       \<and> (\<exists>userID. Session r ''user'' = Some (StringVal userID) \<and> q userID = (user, True))
       \<and> u_admin user \<and> ParseFormOK r \<and> s = Session r \<and> w' = w"
  by (auto simp: apiBootstrapRequireLogin_def Let_def
           split: option.splits sessionValue.splits sum.splits prod.splits if_splits)

lemma apiBootstrapRequireLogin_error_shape:
  "apiBootstrapRequireLogin g q r w method requireAdmin = Inr (w', so, user, eo) \<Longrightarrow>
   (eo = None \<and> so = Some (Session r)) \<or> (eo = Some (E []) \<and> so = None \<and> user = zeroUserRow)"
  by (auto simp: apiBootstrapRequireLogin_def Let_def
           split: option.splits sessionValue.splits sum.splits prod.splits if_splits)

lemma apiBootstrapRequireLogin_returns:
  assumes "sessionAsWritten (Session r)"
  shows "\<exists>w' so user eo. apiBootstrapRequireLogin g q r w method requireAdmin
                            = Inr (w', so, user, eo)"
proof (cases "Session r ''user''")
  case None
  with assms show ?thesis
    using apiBootstrapRequireLogin_no_user [of r g q w "method" requireAdmin] by blast
next
  case (Some v)
  with assms obtain userID where "Session r ''user'' = Some (StringVal userID)"
    by (cases v) (auto simp: sessionAsWritten_def)
  then show ?thesis
    by (cases "q userID") (auto simp: apiBootstrapRequireLogin_def)
qed

text \<open>
  Claim C3. The access-grant CRUD requests go through \<^verbatim>\<open>apiBootstrapRequireLogin\<close> with
  \<^verbatim>\<open>requireAdmin\<close> set, and it lets only an admin principal through. It returns the
  error, with a nil session and the zero user row, whenever the method is not the
  required one, the session carries no user, the session's user is not in the users
  table, the user's admin flag is false, or the form does not parse. It returns the
  session and the user's row with no error exactly when the method is the required one,
  the session's user is a row of the table with the admin flag, and the form parses; so
  a row returned without error is an admin's. A result with an error holds no user row.
  For every session as the server writes it the function does return.
\<close>

theorem apiBootstrapRequireLogin_admin_only:
  "(Method r \<noteq> required \<longrightarrow>
      (\<exists>w'. apiBootstrapRequireLogin g q r w required True = Inr (w', None, zeroUserRow, Some (E []))))
   \<and> (sessionAsWritten (Session r) \<and> Session r ''user'' = None \<longrightarrow>
      (\<exists>w'. apiBootstrapRequireLogin g q r w required True = Inr (w', None, zeroUserRow, Some (E []))))
   \<and> (Session r ''user'' = Some (StringVal userID)
        \<and> (\<not> snd (q userID) \<or> \<not> u_admin (fst (q userID)) \<or> \<not> ParseFormOK r) \<longrightarrow>
      (\<exists>w'. apiBootstrapRequireLogin g q r w required True = Inr (w', None, zeroUserRow, Some (E []))))
   \<and> (apiBootstrapRequireLogin g q r w required True = Inr (w', Some s, user, None)
        \<longleftrightarrow> Method r = required
            \<and> (\<exists>uid. Session r ''user'' = Some (StringVal uid) \<and> q uid = (user, True))
            \<and> u_admin user \<and> ParseFormOK r \<and> s = Session r \<and> w' = w)
   \<and> (apiBootstrapRequireLogin g q r w required True = Inr (w', so, user, Some e) \<longrightarrow>
        so = None \<and> user = zeroUserRow)
   \<and> (apiBootstrapRequireLogin g q r w required True = Inr (w', so, user, None) \<longrightarrow>
        so = Some (Session r) \<and> u_admin user)
   \<and> (sessionAsWritten (Session r) \<longrightarrow>
        (\<exists>w2 so2 user2 eo2.
           apiBootstrapRequireLogin g q r w required True = Inr (w2, so2, user2, eo2)))"
proof (intro conjI impI)
  assume "Method r \<noteq> required"
  then show "\<exists>w'. apiBootstrapRequireLogin g q r w required True = Inr (w', None, zeroUserRow, Some (E []))"
    by (rule apiBootstrapRequireLogin_method)
next
  assume "sessionAsWritten (Session r) \<and> Session r ''user'' = None"
  then show "\<exists>w'. apiBootstrapRequireLogin g q r w required True = Inr (w', None, zeroUserRow, Some (E []))"
    by (simp add: apiBootstrapRequireLogin_no_user)
next
  assume "Session r ''user'' = Some (StringVal userID)
        \<and> (\<not> snd (q userID) \<or> \<not> u_admin (fst (q userID)) \<or> \<not> ParseFormOK r)"
  then show "\<exists>w'. apiBootstrapRequireLogin g q r w required True = Inr (w', None, zeroUserRow, Some (E []))"
    using apiBootstrapRequireLogin_unknown_user [of r userID q g w "required" True]
      apiBootstrapRequireLogin_not_admin [of r userID q g w "required"]
      apiBootstrapRequireLogin_bad_form [of r userID g q w "required" True]
    by blast
next
  show "apiBootstrapRequireLogin g q r w required True = Inr (w', Some s, user, None)
        \<longleftrightarrow> Method r = required
            \<and> (\<exists>uid. Session r ''user'' = Some (StringVal uid) \<and> q uid = (user, True))
            \<and> u_admin user \<and> ParseFormOK r \<and> s = Session r \<and> w' = w"
    by (rule apiBootstrapRequireLogin_success)
next
  assume "apiBootstrapRequireLogin g q r w required True = Inr (w', so, user, Some e)"
  then show "so = None" and "user = zeroUserRow"
    using apiBootstrapRequireLogin_error_shape [of g q r w "required" True w' so user "Some e"]
    by auto
next
  assume ok: "apiBootstrapRequireLogin g q r w required True = Inr (w', so, user, None)"
  then show so: "so = Some (Session r)"
    using apiBootstrapRequireLogin_error_shape [of g q r w "required" True w' so user None]
    by auto
  from ok so show "u_admin user"
    using apiBootstrapRequireLogin_success [of g q r w "required" w' "Session r" user]
    by simp
next
  assume "sessionAsWritten (Session r)"
  then show "\<exists>w2 so2 user2 eo2.
           apiBootstrapRequireLogin g q r w required True = Inr (w2, so2, user2, eo2)"
    by (rule apiBootstrapRequireLogin_returns)
qed

theorem apiBootstrapRequireLogin_admin_only_witness:
  "apiBootstrapRequireLogin \<lparr>httpBase = ''/'', NamePrefix = ''@''\<rparr>
      (\<lambda>uid. if uid = ''42''
             then (\<lparr>u_id = 1, u_snowflake = ''42'', u_admin = True, u_name = ''ann''\<rparr>, True)
             else (zeroUserRow, False))
      \<lparr>Method = ''POST'', URLPath = ''/api/access/create'',
       Session = [''name'' \<mapsto> StringVal ''ann'', ''user'' \<mapsto> StringVal ''42''],
       ParseFormOK = True\<rparr>
      newResponseWriter ''POST'' True
    = Inr (newResponseWriter,
           Some [''name'' \<mapsto> StringVal ''ann'', ''user'' \<mapsto> StringVal ''42''],
           \<lparr>u_id = 1, u_snowflake = ''42'', u_admin = True, u_name = ''ann''\<rparr>, None)
   \<and> (\<exists>w'. apiBootstrapRequireLogin \<lparr>httpBase = ''/'', NamePrefix = ''@''\<rparr>
      (\<lambda>uid. if uid = ''42''
             then (\<lparr>u_id = 1, u_snowflake = ''42'', u_admin = True, u_name = ''ann''\<rparr>, True)
             else (zeroUserRow, False))
      \<lparr>Method = ''POST'', URLPath = ''/api/access/create'',
       Session = [''name'' \<mapsto> StringVal ''bob'', ''user'' \<mapsto> StringVal ''7''],
       ParseFormOK = True\<rparr>
      newResponseWriter ''POST'' True
    = Inr (w', None, zeroUserRow, Some (E [])))
   \<and> (\<exists>w'. apiBootstrapRequireLogin \<lparr>httpBase = ''/'', NamePrefix = ''@''\<rparr>
      (\<lambda>uid. (zeroUserRow, False))
      \<lparr>Method = ''GET'', URLPath = ''/api/access/delete'', Session = Map.empty,
       ParseFormOK = True\<rparr>
      newResponseWriter ''POST'' True
    = Inr (w', None, zeroUserRow, Some (E [])))
   \<and> (\<exists>w'. apiBootstrapRequireLogin \<lparr>httpBase = ''/'', NamePrefix = ''@''\<rparr>
      (\<lambda>uid. (zeroUserRow, False))
      \<lparr>Method = ''POST'', URLPath = ''/api/access/update'', Session = Map.empty,
       ParseFormOK = True\<rparr>
      newResponseWriter ''POST'' True
    = Inr (w', None, zeroUserRow, Some (E [])))"
proof -
  let ?g = "\<lparr>httpBase = ''/'', NamePrefix = ''@''\<rparr>"
  let ?ann = "\<lparr>u_id = 1, u_snowflake = ''42'', u_admin = True, u_name = ''ann''\<rparr>"
  let ?q = "\<lambda>uid. if uid = ''42'' then (?ann, True) else (zeroUserRow, False)"
  let ?none = "\<lambda>uid::string. (zeroUserRow, False)"
  let ?s1 = "[''name'' \<mapsto> StringVal ''ann'', ''user'' \<mapsto> StringVal ''42'']"
  let ?s2 = "[''name'' \<mapsto> StringVal ''bob'', ''user'' \<mapsto> StringVal ''7'']"
  let ?r1 = "\<lparr>Method = ''POST'', URLPath = ''/api/access/create'', Session = ?s1,
              ParseFormOK = True\<rparr>"
  let ?r2 = "\<lparr>Method = ''POST'', URLPath = ''/api/access/create'', Session = ?s2,
              ParseFormOK = True\<rparr>"
  let ?r3 = "\<lparr>Method = ''GET'', URLPath = ''/api/access/delete'', Session = Map.empty,
              ParseFormOK = True\<rparr>"
  let ?r4 = "\<lparr>Method = ''POST'', URLPath = ''/api/access/update'', Session = Map.empty,
              ParseFormOK = True\<rparr>"
  note ok = apiBootstrapRequireLogin_admin_only
      [where g = ?g and q = ?q and r = ?r1 and w = newResponseWriter and required = "''POST''"
         and w' = newResponseWriter and s = ?s1 and user = ?ann,
       THEN conjunct2, THEN conjunct2, THEN conjunct2, THEN conjunct1]
  have "Method ?r1 = ''POST''
        \<and> (\<exists>uid. Session ?r1 ''user'' = Some (StringVal uid) \<and> ?q uid = (?ann, True))
        \<and> u_admin ?ann \<and> ParseFormOK ?r1 \<and> ?s1 = Session ?r1
        \<and> newResponseWriter = newResponseWriter"
    by simp
  then have 1: "apiBootstrapRequireLogin ?g ?q ?r1 newResponseWriter ''POST'' True
      = Inr (newResponseWriter, Some ?s1, ?ann, None)"
    by (rule ok [THEN iffD2])
  note unknown = apiBootstrapRequireLogin_admin_only
      [where g = ?g and q = ?q and r = ?r2 and w = newResponseWriter and required = "''POST''"
         and userID = "''7''",
       THEN conjunct2, THEN conjunct2, THEN conjunct1]
  have "Session ?r2 ''user'' = Some (StringVal ''7'')
        \<and> (\<not> snd (?q ''7'') \<or> \<not> u_admin (fst (?q ''7'')) \<or> \<not> ParseFormOK ?r2)"
    by simp
  then have 2: "\<exists>w'. apiBootstrapRequireLogin ?g ?q ?r2 newResponseWriter ''POST'' True
      = Inr (w', None, zeroUserRow, Some (E []))"
    by (rule unknown [THEN mp])
  note wrong_method = apiBootstrapRequireLogin_admin_only
      [where g = ?g and q = ?none and r = ?r3 and w = newResponseWriter and required = "''POST''",
       THEN conjunct1]
  have "Method ?r3 \<noteq> ''POST''" by simp
  then have 3: "\<exists>w'. apiBootstrapRequireLogin ?g ?none ?r3 newResponseWriter ''POST'' True
      = Inr (w', None, zeroUserRow, Some (E []))"
    by (rule wrong_method [THEN mp])
  note anonymous = apiBootstrapRequireLogin_admin_only
      [where g = ?g and q = ?none and r = ?r4 and w = newResponseWriter and required = "''POST''",
       THEN conjunct2, THEN conjunct1]
  have "sessionAsWritten (Session ?r4) \<and> Session ?r4 ''user'' = None"
    by (simp add: sessionAsWritten_def)
  then have 4: "\<exists>w'. apiBootstrapRequireLogin ?g ?none ?r4 newResponseWriter ''POST'' True
      = Inr (w', None, zeroUserRow, Some (E []))"
    by (rule anonymous [THEN mp])
  from 1 2 3 4 show ?thesis by (intro conjI)
qed

text \<open>
  Outside the sessions that \<open>sessionAsWritten\<close> describes the function need not return:
  on a session with a name and no user, the denial page asserts the missing user to be
  a string, and the call panics.
\<close>

lemma apiBootstrapRequireLogin_name_without_user:
  "apiBootstrapRequireLogin \<lparr>httpBase = ''/'', NamePrefix = ''@''\<rparr>
       (\<lambda>uid. (zeroUserRow, False))
       \<lparr>Method = ''POST'', URLPath = ''/api/access/create'',
        Session = [''name'' \<mapsto> StringVal ''bob''], ParseFormOK = True\<rparr>
       newResponseWriter ''POST'' True
     = Inl InterfaceConversion"
  by (simp add: apiBootstrapRequireLogin_def writeUserDenied_def sessionMe_def)

subsection \<open>Themes come before the default assets\<close>

lemma addThemes_Inr:
  "addThemes ex m items dirs = Inr out \<Longrightarrow> out = dirs @ map (\<lambda>t. Dir (themeLoc m t)) items"
proof (induction items arbitrary: dirs)
  case Nil
  then show ?case by simp
next
  case (Cons item items)
  from Cons.prems have ex: "ex (themeLoc m item)"
    and rest: "addThemes ex m items (dirs @ [Dir (themeLoc m item)]) = Inr out"
    by (auto simp: Let_def split: if_splits)
  from Cons.IH [OF rest] show ?case by simp
qed

lemma addThemes_total:
  "(\<exists>out. addThemes ex m items dirs = Inr out) \<longleftrightarrow> (\<forall>t \<in> set items. ex (themeLoc m t))"
  by (induction items arbitrary: dirs) (auto simp: Let_def)

lemma buildDirs_Inr:
  assumes "buildDirs ex m flagTheme configThemes = Inr dirs"
  shows "dirs = map (\<lambda>t. Dir (themeLoc m t)) (flagTheme @ configThemes)
                  @ [Dir ''./www/'', Box [] ''./www/'']"
proof -
  obtain d1 where d1: "addThemes ex m flagTheme [] = Inr d1"
    using assms by (auto simp: buildDirs_def split: sum.splits)
  obtain d2 where d2: "addThemes ex m configThemes d1 = Inr d2"
    using assms d1 by (auto simp: buildDirs_def split: sum.splits)
  have "dirs = (d2 @ [Dir ''./www/'']) @ [Box [] ''./www/'']"
    using assms d1 d2 by (simp add: buildDirs_def)
  moreover have "d1 = map (\<lambda>t. Dir (themeLoc m t)) flagTheme"
    using addThemes_Inr [OF d1] by simp
  moreover have "d2 = d1 @ map (\<lambda>t. Dir (themeLoc m t)) configThemes"
    using addThemes_Inr [OF d2] .
  ultimately show ?thesis by simp
qed

lemma buildDirs_total:
  "(\<exists>dirs. buildDirs ex m flagTheme configThemes = Inr dirs)
     \<longleftrightarrow> (\<forall>t \<in> set (flagTheme @ configThemes). ex (themeLoc m t))"
proof -
  have "(\<exists>dirs. buildDirs ex m flagTheme configThemes = Inr dirs)
        \<longleftrightarrow> (\<exists>d1. addThemes ex m flagTheme [] = Inr d1
                  \<and> (\<exists>d2. addThemes ex m configThemes d1 = Inr d2))"
    by (auto simp: buildDirs_def split: sum.splits)
  also have "\<dots> \<longleftrightarrow> (\<exists>d1. addThemes ex m flagTheme [] = Inr d1)
                    \<and> (\<forall>t \<in> set configThemes. ex (themeLoc m t))"
    using addThemes_total [of ex m configThemes] by blast
  also have "\<dots> \<longleftrightarrow> (\<forall>t \<in> set (flagTheme @ configThemes). ex (themeLoc m t))"
    using addThemes_total [of ex m flagTheme "[]"] by auto
  finally show ?thesis .
qed

lemma multiplexOpen_append:
  "multiplexOpen files (xs @ ys) path =
     (case multiplexOpen files xs path of
        Some found \<Rightarrow> Some found
      | None \<Rightarrow> multiplexOpen files ys path)"
  by (induction xs) (auto split: option.splits)

lemma multiplexOpen_first_theme:
  "find (\<lambda>t. files (Dir (themeLoc m t)) path \<noteq> None) themes = Some t \<Longrightarrow>
   files (Dir (themeLoc m t)) path = Some content \<Longrightarrow>
   multiplexOpen files (map (\<lambda>t. Dir (themeLoc m t)) themes) path
     = Some (Dir (themeLoc m t), content)"
  by (induction themes) (auto split: if_splits)

lemma multiplexOpen_no_theme:
  "\<forall>t \<in> set themes. files (Dir (themeLoc m t)) path = None \<Longrightarrow>
   multiplexOpen files (map (\<lambda>t. Dir (themeLoc m t)) themes) path = None"
  by (induction themes) auto

text \<open>
  Claim C4. When startup gets past the theme checks, the list of asset sources is the
  theme directories of the \<^verbatim>\<open>--theme\<close> flags in order, then those of the configuration
  file, then the local \<^verbatim>\<open>./www/\<close> directory, then the embedded bundle; it is built once.
  With first-match lookup over that list, an asset that a theme directory has is
  opened from the first theme directory that has it, whatever \<^verbatim>\<open>./www/\<close> and the bundle
  hold under the same path; only when no theme directory has it do \<^verbatim>\<open>./www/\<close> and then
  the bundle answer. Startup gets past the checks exactly when every theme directory
  exists.
\<close>

theorem theme_overrides_default:
  assumes "buildDirs ex m flagTheme configThemes = Inr dirs"
  shows "dirs = map (\<lambda>t. Dir (themeLoc m t)) (flagTheme @ configThemes)
                  @ [Dir ''./www/'', Box [] ''./www/'']
       \<and> (find (\<lambda>t. files (Dir (themeLoc m t)) path \<noteq> None) (flagTheme @ configThemes) = Some t
            \<and> files (Dir (themeLoc m t)) path = Some content
          \<longrightarrow> multiplexOpen files dirs path = Some (Dir (themeLoc m t), content))
       \<and> ((\<forall>t \<in> set (flagTheme @ configThemes). files (Dir (themeLoc m t)) path = None)
          \<longrightarrow> multiplexOpen files dirs path
                = multiplexOpen files [Dir ''./www/'', Box [] ''./www/''] path)
       \<and> (\<forall>t \<in> set (flagTheme @ configThemes). ex (themeLoc m t))"
proof (intro conjI impI)
  show dirs: "dirs = map (\<lambda>t. Dir (themeLoc m t)) (flagTheme @ configThemes)
                  @ [Dir ''./www/'', Box [] ''./www/'']"
    using assms by (rule buildDirs_Inr)
  show "\<forall>t \<in> set (flagTheme @ configThemes). ex (themeLoc m t)"
    using assms buildDirs_total [of ex m flagTheme configThemes] by blast
  {
    assume "find (\<lambda>t. files (Dir (themeLoc m t)) path \<noteq> None) (flagTheme @ configThemes) = Some t
            \<and> files (Dir (themeLoc m t)) path = Some content"
    then have "multiplexOpen files (map (\<lambda>t. Dir (themeLoc m t)) (flagTheme @ configThemes)) path
                 = Some (Dir (themeLoc m t), content)"
      by (intro multiplexOpen_first_theme) auto
    then show "multiplexOpen files dirs path = Some (Dir (themeLoc m t), content)"
      by (subst dirs, subst multiplexOpen_append) simp
  }
  {
    assume "\<forall>t \<in> set (flagTheme @ configThemes). files (Dir (themeLoc m t)) path = None"
    then have "multiplexOpen files (map (\<lambda>t. Dir (themeLoc m t)) (flagTheme @ configThemes)) path
                 = None"
      by (rule multiplexOpen_no_theme)
    then show "multiplexOpen files dirs path
                = multiplexOpen files [Dir ''./www/'', Box [] ''./www/''] path"
      by (subst dirs, subst multiplexOpen_append) simp
  }
qed

theorem theme_overrides_default_witness:
  "buildDirs (\<lambda>loc. True) ''/meta'' [''dark''] []
     = Inr [Dir ''/meta/themes/dark'', Dir ''./www/'', Box [] ''./www/'']
   \<and> multiplexOpen
        (\<lambda>fs. case fs of
                 Dir d \<Rightarrow> if d = ''/meta/themes/dark'' then [''style.css'' \<mapsto> ''theme'']
                          else Map.empty
               | Box n p \<Rightarrow> [''style.css'' \<mapsto> ''default''])
        [Dir ''/meta/themes/dark'', Dir ''./www/'', Box [] ''./www/''] ''style.css''
     = Some (Dir ''/meta/themes/dark'', ''theme'')"
proof -
  let ?files = "\<lambda>fs. case fs of
                 Dir d \<Rightarrow> if d = ''/meta/themes/dark'' then [''style.css'' \<mapsto> ''theme'']
                          else Map.empty
               | Box n p \<Rightarrow> [''style.css'' \<mapsto> ''default'']"
  have built: "buildDirs (\<lambda>loc. True) ''/meta'' [''dark''] []
     = Inr [Dir ''/meta/themes/dark'', Dir ''./www/'', Box [] ''./www/'']"
    by (simp add: buildDirs_def themeLoc_def)
  have "find (\<lambda>t. ?files (Dir (themeLoc ''/meta'' t)) ''style.css'' \<noteq> None) ([''dark''] @ [])
          = Some ''dark''
        \<and> ?files (Dir (themeLoc ''/meta'' ''dark'')) ''style.css'' = Some ''theme''"
    by (simp add: themeLoc_def)
  then have "multiplexOpen ?files [Dir ''/meta/themes/dark'', Dir ''./www/'', Box [] ''./www/'']
               ''style.css''
             = Some (Dir (themeLoc ''/meta'' ''dark''), ''theme'')"
    by (rule theme_overrides_default [OF built, THEN conjunct2, THEN conjunct1, THEN mp])
  with built show ?thesis by (simp add: themeLoc_def)
qed

subsection \<open>The persisted tables\<close>

lemma CreateTable_names:
  "set (map fst (CreateTable f s name pk cols)) = insert name (set (map fst s))"
proof (cases "name \<in> set (map fst s)")
  case True
  let ?g = "\<lambda>(n, cs). if n = name then (n, f cs (pk # cols)) else (n, cs)"
  have "fst \<circ> ?g = fst"
    by (rule ext) (simp split: prod.splits)
  then have "map fst (map ?g s) = map fst s"
    by (simp only: map_map)
  moreover have "CreateTable f s name pk cols = map ?g s"
    using True by (simp only: CreateTable_def if_True)
  ultimately have "set (map fst (CreateTable f s name pk cols)) = set (map fst s)"
    by (simp only:)
  with True show ?thesis
    by (simp only: insert_absorb)
next
  case False
  then show ?thesis
    by (simp add: CreateTable_def)
qed

lemma createTables_names:
  "set (map fst (createTables f s)) = set (map fst s) \<union> {''users'', ''access'', ''shares''}"
  unfolding createTables_def Let_def CreateTable_names by blast

lemma CreateTable_absent:
  "name \<notin> set (map fst s) \<Longrightarrow> CreateTable f s name pk cols = s @ [(name, pk # cols)]"
  by (simp add: CreateTable_def)

lemma createTables_fresh:
  assumes "''users'' \<notin> set (map fst s)" and "''access'' \<notin> set (map fst s)"
    and "''shares'' \<notin> set (map fst s)"
  shows "createTables f s = s @
     [(''users'', [(''id'', ''int primary key''), (''snowflake'', ''text''),
                  (''admin'', ''tinyint(1)''), (''name'', ''text'')]),
      (''access'', [(''id'', ''int primary key''), (''user'', ''int''), (''path'', ''text'')]),
      (''shares'', [(''id'', ''int primary key''), (''hash'', ''text''), (''path'', ''text'')])]"
  using assms by (simp add: createTables_def CreateTable_def)

lemma createTables_empty:
  "createTables f [] =
     [(''users'', [(''id'', ''int primary key''), (''snowflake'', ''text''),
                  (''admin'', ''tinyint(1)''), (''name'', ''text'')]),
      (''access'', [(''id'', ''int primary key''), (''user'', ''int''), (''path'', ''text'')]),
      (''shares'', [(''id'', ''int primary key''), (''hash'', ''text''), (''path'', ''text'')])]"
  using createTables_fresh [of "[]" f] by simp

lemma createTables_again:
  assumes "\<forall>cs. f cs cs = cs"
  shows "createTables f (createTables f []) = createTables f []"
  unfolding createTables_empty using assms by (simp add: createTables_def CreateTable_def)

lemma startup_store:
  "fst (startup f ex walk root meta flagTheme configThemes flagAdmin st)
     = \<lparr>tables = createTables f (tables st), rows = adminCreation (rows st) flagAdmin\<rparr>"
  by (simp add: startup_def Let_def)

lemma startup_local:
  "snd (startup f ex walk root meta flagTheme configThemes flagAdmin st)
     = (case buildDirs ex meta flagTheme configThemes of
          Inl e \<Rightarrow> Inl e
        | Inr dirs \<Rightarrow> Inr (dirs, walk root))"
  by (simp add: startup_def Let_def)

text \<open>
  Claim C6, as the code has it. The persisted layout consists of exactly three tables,
  created at every startup: \<^verbatim>\<open>users\<close> with the columns id, snowflake, admin, name;
  \<^verbatim>\<open>access\<close> with id, user, path; \<^verbatim>\<open>shares\<close> with id, hash, path. On a store without
  them startup adds these three with these columns, whatever the library does to a
  table that exists; on any store it adds no other table; and on the store it created,
  a library that leaves a table with the columns asked for as it is changes nothing.
  No other state is persisted: what startup leaves in the store depends on the store
  and the admin flag alone, and the overlay and the index are the same whatever the
  store holds, built from the disk and the configuration at each start.
\<close>

theorem createTables_three_tables:
  "map fst (createTables f []) = [''users'', ''access'', ''shares'']
   \<and> columnNames (createTables f []) ''users'' = Some [''id'', ''snowflake'', ''admin'', ''name'']
   \<and> columnNames (createTables f []) ''access'' = Some [''id'', ''user'', ''path'']
   \<and> columnNames (createTables f []) ''shares'' = Some [''id'', ''hash'', ''path'']
   \<and> (''users'' \<notin> set (map fst s) \<and> ''access'' \<notin> set (map fst s) \<and> ''shares'' \<notin> set (map fst s)
        \<longrightarrow> createTables f s = s @ createTables f [])
   \<and> set (map fst (createTables f s)) = set (map fst s) \<union> {''users'', ''access'', ''shares''}
   \<and> ((\<forall>cs. f cs cs = cs) \<longrightarrow> createTables f (createTables f []) = createTables f [])
   \<and> tables (fst (startup f ex walk root meta flagTheme configThemes flagAdmin st))
       = createTables f (tables st)
   \<and> fst (startup f ex walk root meta flagTheme configThemes flagAdmin st)
       = fst (startup f ex' walk' root' meta' flagTheme' configThemes' flagAdmin st)
   \<and> snd (startup f ex walk root meta flagTheme configThemes flagAdmin st)
       = snd (startup f' ex walk root meta flagTheme configThemes flagAdmin' st')"
proof (intro conjI impI)
  assume "''users'' \<notin> set (map fst s) \<and> ''access'' \<notin> set (map fst s)
          \<and> ''shares'' \<notin> set (map fst s)"
  then show "createTables f s = s @ createTables f []"
    by (simp add: createTables_fresh createTables_empty)
next
  show "set (map fst (createTables f s)) = set (map fst s) \<union> {''users'', ''access'', ''shares''}"
    by (rule createTables_names)
next
  assume "\<forall>cs. f cs cs = cs"
  then show "createTables f (createTables f []) = createTables f []"
    by (rule createTables_again)
next
  show "fst (startup f ex walk root meta flagTheme configThemes flagAdmin st)
       = fst (startup f ex' walk' root' meta' flagTheme' configThemes' flagAdmin st)"
    by (simp only: startup_store)
next
  show "snd (startup f ex walk root meta flagTheme configThemes flagAdmin st)
       = snd (startup f' ex walk root meta flagTheme configThemes flagAdmin' st')"
    by (simp only: startup_local)
qed (simp_all add: createTables_empty columnNames_def startup_store)

theorem createTables_three_tables_witness:
  "createTables (\<lambda>old new. old) [(''notes'', [(''id'', ''int'')])]
     = [(''notes'', [(''id'', ''int'')]),
        (''users'', [(''id'', ''int primary key''), (''snowflake'', ''text''),
                     (''admin'', ''tinyint(1)''), (''name'', ''text'')]),
        (''access'', [(''id'', ''int primary key''), (''user'', ''int''), (''path'', ''text'')]),
        (''shares'', [(''id'', ''int primary key''), (''hash'', ''text''), (''path'', ''text'')])]
   \<and> createTables (\<lambda>old new. old) (createTables (\<lambda>old new. old) [])
     = createTables (\<lambda>old new. old) []"
proof -
  let ?f = "\<lambda>old new :: column list. old"
  let ?s = "[(''notes'', [(''id'', ''int'')])]"
  note inst = createTables_three_tables [where f = ?f and s = ?s]
  have "''users'' \<notin> set (map fst ?s) \<and> ''access'' \<notin> set (map fst ?s)
        \<and> ''shares'' \<notin> set (map fst ?s)"
    by simp
  then have "createTables ?f ?s = ?s @ createTables ?f []"
    by (rule inst [THEN conjunct2, THEN conjunct2, THEN conjunct2, THEN conjunct2,
                   THEN conjunct1, THEN mp])
  then have 1: "createTables ?f ?s = ?s @
     [(''users'', [(''id'', ''int primary key''), (''snowflake'', ''text''),
                  (''admin'', ''tinyint(1)''), (''name'', ''text'')]),
      (''access'', [(''id'', ''int primary key''), (''user'', ''int''), (''path'', ''text'')]),
      (''shares'', [(''id'', ''int primary key''), (''hash'', ''text''), (''path'', ''text'')])]"
    by (simp add: createTables_empty)
  have "\<forall>cs. ?f cs cs = cs" by simp
  then have 2: "createTables ?f (createTables ?f []) = createTables ?f []"
    by (rule inst [THEN conjunct2, THEN conjunct2, THEN conjunct2, THEN conjunct2,
                   THEN conjunct2, THEN conjunct2, THEN conjunct1, THEN mp])
  from 1 2 show ?thesis by simp
qed

text \<open>
  The claim as the specification states it fails: the \<^verbatim>\<open>users\<close> table has no column
  named \<^verbatim>\<open>externalId\<close>.
\<close>

theorem createTables_users_columns:
  "columnNames (createTables (\<lambda>old new. old) []) ''users''
     \<noteq> Some [''id'', ''externalId'', ''admin'', ''name'']"
  by (simp add: createTables_empty columnNames_def)

subsection \<open>The admin of the command line\<close>

lemma maxId_ge: "i \<in> set xs \<Longrightarrow> i \<le> maxId xs"
  by (induction xs rule: maxId.induct) auto

lemma nextId_fresh: "nextId xs \<notin> set xs"
proof
  assume "nextId xs \<in> set xs"
  then have "nextId xs \<le> maxId xs" by (rule maxId_ge)
  then show False by (simp add: nextId_def)
qed

lemma find_append_eq:
  "find P (xs @ ys) = (case find P xs of None \<Rightarrow> find P ys | Some x \<Rightarrow> Some x)"
  by (induction xs) auto

lemma find_map_same:
  "(\<And>y. P (f y) = P y) \<Longrightarrow> find P (map f xs) = map_option f (find P xs)"
  by (induction xs) auto

lemma queryUserBySnowflake_found:
  "queryUserBySnowflake db sf = (u, True) \<Longrightarrow> u \<in> set (users db) \<and> u_snowflake u = sf"
  by (auto simp: queryUserBySnowflake_def find_Some_iff split: option.splits)

lemma adminUserStep_new:
  assumes "\<not> snd (queryUserBySnowflake db flagAdmin)"
  shows "adminUserStep db flagAdmin =
           db\<lparr>users := users db @ [\<lparr>u_id = QueryNextID db ''users'', u_snowflake = flagAdmin,
                                    u_admin = True, u_name = []\<rparr>]\<rparr>"
proof -
  have "QueryNextID db ''users'' \<notin> set (map u_id (users db))"
    using nextId_fresh [of "map u_id (users db)"] by (simp add: QueryNextID_def tableIds_def)
  with assms show ?thesis
    by (auto simp: adminUserStep_def queryDoAddUser_def Let_def split: prod.splits)
qed

lemma adminUserStep_old:
  assumes "queryUserBySnowflake db flagAdmin = (uu, True)"
  shows "adminUserStep db flagAdmin =
           (if u_admin uu then db
            else db\<lparr>users := map (\<lambda>u. if u_id u = u_id uu then u\<lparr>u_admin := True\<rparr> else u)
                                (users db)\<rparr>)"
  using assms by (simp add: adminUserStep_def QueryDoUpdate_users_admin_def)

lemma adminUserStep_access: "access (adminUserStep db flagAdmin) = access db"
  by (auto simp: adminUserStep_def queryDoAddUser_def QueryDoUpdate_users_admin_def Let_def
           split: prod.splits)

lemma adminUserStep_admin:
  "\<exists>u. queryUserBySnowflake (adminUserStep db flagAdmin) flagAdmin = (u, True) \<and> u_admin u"
proof (cases "snd (queryUserBySnowflake db flagAdmin)")
  case False
  then have none: "find (\<lambda>u. u_snowflake u = flagAdmin) (users db) = None"
    by (auto simp: queryUserBySnowflake_def split: option.splits)
  show ?thesis
    unfolding adminUserStep_new [OF False]
    by (simp add: queryUserBySnowflake_def find_append_eq none)
next
  case True
  then obtain uu where uu: "queryUserBySnowflake db flagAdmin = (uu, True)"
    by (cases "queryUserBySnowflake db flagAdmin") auto
  then have f: "find (\<lambda>u. u_snowflake u = flagAdmin) (users db) = Some uu"
    by (auto simp: queryUserBySnowflake_def split: option.splits)
  show ?thesis
  proof (cases "u_admin uu")
    case True
    with uu show ?thesis by (simp add: adminUserStep_old)
  next
    case False
    let ?f = "\<lambda>u. if u_id u = u_id uu then u\<lparr>u_admin := True\<rparr> else u"
    have "find (\<lambda>u. u_snowflake u = flagAdmin) (map ?f (users db)) = Some (?f uu)"
      using f by (subst find_map_same) auto
    with False show ?thesis
      by (simp add: adminUserStep_old [OF uu] queryUserBySnowflake_def)
  qed
qed

lemma adminCreation_cases:
  assumes "flagAdmin \<noteq> []"
    and "queryUserBySnowflake (adminUserStep db flagAdmin) flagAdmin = (nu, True)"
  shows "adminCreation db flagAdmin =
           (if ''/'' \<in> set (queryAccess (adminUserStep db flagAdmin) nu)
            then adminUserStep db flagAdmin
            else (adminUserStep db flagAdmin)
                   \<lparr>access := access db @ [\<lparr>a_id = QueryNextID db ''access'', a_user = u_id nu,
                                             a_path = ''/''\<rparr>]\<rparr>)"
proof -
  let ?db1 = "adminUserStep db flagAdmin"
  have same: "QueryNextID ?db1 ''access'' = QueryNextID db ''access''"
    by (simp add: QueryNextID_def tableIds_def adminUserStep_access)
  have "QueryNextID db ''access'' \<notin> set (map a_id (access db))"
    using nextId_fresh [of "map a_id (access db)"] by (simp add: QueryNextID_def tableIds_def)
  then show ?thesis
    using assms same
    by (simp add: adminCreation_def Contains_def Query_insert_access_def adminUserStep_access)
qed

lemma adminCreation_users:
  "users (adminCreation db flagAdmin) =
     (if flagAdmin = [] then users db else users (adminUserStep db flagAdmin))"
  by (auto simp: adminCreation_def Query_insert_access_def Let_def split: prod.splits)

lemma queryUserBySnowflake_users:
  "users db' = users db \<Longrightarrow> queryUserBySnowflake db' sf = queryUserBySnowflake db sf"
  by (simp add: queryUserBySnowflake_def)

lemma adminUserStep_old_query:
  assumes "queryUserBySnowflake db flagAdmin = (uu, True)"
  shows "queryUserBySnowflake (adminUserStep db flagAdmin) flagAdmin = (uu\<lparr>u_admin := True\<rparr>, True)"
proof (cases "u_admin uu")
  case True
  with assms show ?thesis by (simp add: adminUserStep_old)
next
  case False
  let ?f = "\<lambda>u. if u_id u = u_id uu then u\<lparr>u_admin := True\<rparr> else u"
  have "find (\<lambda>u. u_snowflake u = flagAdmin) (users db) = Some uu"
    using assms by (auto simp: queryUserBySnowflake_def split: option.splits)
  then have "find (\<lambda>u. u_snowflake u = flagAdmin) (map ?f (users db)) = Some (?f uu)"
    by (subst find_map_same) auto
  with False show ?thesis
    by (simp add: adminUserStep_old [OF assms] queryUserBySnowflake_def)
qed

lemma adminUserStep_old_users:
  assumes "queryUserBySnowflake db flagAdmin = (uu, True)"
  shows "map u_id (users (adminUserStep db flagAdmin)) = map u_id (users db)
       \<and> map u_snowflake (users (adminUserStep db flagAdmin)) = map u_snowflake (users db)
       \<and> map u_name (users (adminUserStep db flagAdmin)) = map u_name (users db)"
proof -
  let ?f = "\<lambda>u. if u_id u = u_id uu then u\<lparr>u_admin := True\<rparr> else u"
  have "u_id \<circ> ?f = u_id" and "u_snowflake \<circ> ?f = u_snowflake" and "u_name \<circ> ?f = u_name"
    by (rule ext, simp)+
  then show ?thesis
    by (simp add: adminUserStep_old [OF assms])
qed

lemma adminCreation_result:
  assumes "flagAdmin \<noteq> []"
  shows "\<exists>u. queryUserBySnowflake (adminCreation db flagAdmin) flagAdmin = (u, True)
             \<and> u_admin u \<and> ''/'' \<in> set (queryAccess (adminCreation db flagAdmin) u)"
proof -
  let ?db1 = "adminUserStep db flagAdmin"
  obtain nu where nu: "queryUserBySnowflake ?db1 flagAdmin = (nu, True)" and adm: "u_admin nu"
    using adminUserStep_admin [of db flagAdmin] by blast
  have "users (adminCreation db flagAdmin) = users ?db1"
    using assms by (simp add: adminCreation_users)
  then have q: "queryUserBySnowflake (adminCreation db flagAdmin) flagAdmin = (nu, True)"
    using nu queryUserBySnowflake_users [of "adminCreation db flagAdmin" ?db1 flagAdmin]
    by simp
  have "''/'' \<in> set (queryAccess (adminCreation db flagAdmin) nu)"
  proof (cases "''/'' \<in> set (queryAccess ?db1 nu)")
    case True
    then show ?thesis by (simp add: adminCreation_cases [OF assms nu])
  next
    case False
    then have "access (adminCreation db flagAdmin)
                 = access db @ [\<lparr>a_id = QueryNextID db ''access'', a_user = u_id nu,
                                  a_path = ''/''\<rparr>]"
      by (simp add: adminCreation_cases [OF assms nu])
    then show ?thesis by (simp add: queryAccess_def)
  qed
  with q adm show ?thesis by blast
qed

lemma adminCreation_keeps_grant:
  assumes "flagAdmin \<noteq> []"
    and "queryUserBySnowflake db flagAdmin = (uu, True)"
    and "''/'' \<in> set (queryAccess db uu)"
  shows "access (adminCreation db flagAdmin) = access db"
proof -
  let ?db1 = "adminUserStep db flagAdmin"
  have nu: "queryUserBySnowflake ?db1 flagAdmin = (uu\<lparr>u_admin := True\<rparr>, True)"
    using assms(2) by (rule adminUserStep_old_query)
  have "queryAccess ?db1 (uu\<lparr>u_admin := True\<rparr>) = queryAccess db uu"
    by (simp add: queryAccess_def adminUserStep_access)
  with assms(3) show ?thesis
    unfolding adminCreation_cases [OF assms(1) nu] by (simp add: adminUserStep_access)
qed

lemma adminCreation_access_growth:
  "access (adminCreation db flagAdmin) = access db
   \<or> (\<exists>row. access (adminCreation db flagAdmin) = access db @ [row]
            \<and> a_id row = QueryNextID db ''access'' \<and> a_path row = ''/'')"
proof (cases "flagAdmin = []")
  case True
  then show ?thesis by (simp add: adminCreation_def)
next
  case False
  obtain nu where nu: "queryUserBySnowflake (adminUserStep db flagAdmin) flagAdmin = (nu, True)"
    using adminUserStep_admin [of db flagAdmin] by blast
  show ?thesis
    unfolding adminCreation_cases [OF False nu] by (simp add: adminUserStep_access)
qed

text \<open>
  Claim C5. When the \<^verbatim>\<open>--admin\<close> flag is not empty, after the block has run the user with
  that snowflake is in the users table, its admin flag is set, and it holds an access
  grant with path \<^verbatim>\<open>/\<close>. A row that was there before is updated in place: the ids,
  snowflakes and names of the table's rows are what they were, so no row is added. A
  user that was not there is added as one new row. When the user already held the
  grant \<^verbatim>\<open>/\<close>, the access table is left as it was, so no second row is inserted.
\<close>

theorem adminCreation_makes_admin:
  assumes "flagAdmin \<noteq> []"
  shows "(\<exists>u. queryUserBySnowflake (adminCreation db flagAdmin) flagAdmin = (u, True)
              \<and> u_admin u \<and> ''/'' \<in> set (queryAccess (adminCreation db flagAdmin) u))
       \<and> (queryUserBySnowflake db flagAdmin = (uu, True) \<longrightarrow>
            queryUserBySnowflake (adminCreation db flagAdmin) flagAdmin
              = (uu\<lparr>u_admin := True\<rparr>, True)
            \<and> map u_id (users (adminCreation db flagAdmin)) = map u_id (users db)
            \<and> map u_snowflake (users (adminCreation db flagAdmin)) = map u_snowflake (users db)
            \<and> map u_name (users (adminCreation db flagAdmin)) = map u_name (users db))
       \<and> (\<not> snd (queryUserBySnowflake db flagAdmin) \<longrightarrow>
            users (adminCreation db flagAdmin)
              = users db @ [\<lparr>u_id = QueryNextID db ''users'', u_snowflake = flagAdmin,
                             u_admin = True, u_name = []\<rparr>])
       \<and> (queryUserBySnowflake db flagAdmin = (uu, True) \<and> ''/'' \<in> set (queryAccess db uu) \<longrightarrow>
            access (adminCreation db flagAdmin) = access db)"
proof (intro conjI impI)
  show "\<exists>u. queryUserBySnowflake (adminCreation db flagAdmin) flagAdmin = (u, True)
             \<and> u_admin u \<and> ''/'' \<in> set (queryAccess (adminCreation db flagAdmin) u)"
    using assms by (rule adminCreation_result)
next
  assume old: "queryUserBySnowflake db flagAdmin = (uu, True)"
  have users: "users (adminCreation db flagAdmin) = users (adminUserStep db flagAdmin)"
    using assms by (simp add: adminCreation_users)
  show "queryUserBySnowflake (adminCreation db flagAdmin) flagAdmin = (uu\<lparr>u_admin := True\<rparr>, True)"
    using adminUserStep_old_query [OF old]
      queryUserBySnowflake_users [OF users, of flagAdmin]
    by simp
  show "map u_id (users (adminCreation db flagAdmin)) = map u_id (users db)"
    and "map u_snowflake (users (adminCreation db flagAdmin)) = map u_snowflake (users db)"
    and "map u_name (users (adminCreation db flagAdmin)) = map u_name (users db)"
    using adminUserStep_old_users [OF old] users by simp_all
next
  assume "\<not> snd (queryUserBySnowflake db flagAdmin)"
  then show "users (adminCreation db flagAdmin)
              = users db @ [\<lparr>u_id = QueryNextID db ''users'', u_snowflake = flagAdmin,
                             u_admin = True, u_name = []\<rparr>]"
    using assms by (simp add: adminCreation_users adminUserStep_new)
next
  assume "queryUserBySnowflake db flagAdmin = (uu, True) \<and> ''/'' \<in> set (queryAccess db uu)"
  then show "access (adminCreation db flagAdmin) = access db"
    using assms adminCreation_keeps_grant by blast
qed

theorem adminCreation_makes_admin_witness:
  "adminCreation
     \<lparr>users = [\<lparr>u_id = 1, u_snowflake = ''42'', u_admin = False, u_name = ''ann''\<rparr>],
      access = [\<lparr>a_id = 1, a_user = 1, a_path = ''/''\<rparr>]\<rparr> ''42''
     = \<lparr>users = [\<lparr>u_id = 1, u_snowflake = ''42'', u_admin = True, u_name = ''ann''\<rparr>],
        access = [\<lparr>a_id = 1, a_user = 1, a_path = ''/''\<rparr>]\<rparr>
   \<and> adminCreation \<lparr>users = [], access = []\<rparr> ''42''
     = \<lparr>users = [\<lparr>u_id = 1, u_snowflake = ''42'', u_admin = True, u_name = []\<rparr>],
        access = [\<lparr>a_id = 1, a_user = 1, a_path = ''/''\<rparr>]\<rparr>"
proof -
  let ?ann = "\<lparr>u_id = 1, u_snowflake = ''42'', u_admin = False, u_name = ''ann''\<rparr>"
  let ?db = "\<lparr>users = [?ann], access = [\<lparr>a_id = 1, a_user = 1, a_path = ''/''\<rparr>]\<rparr>"
  have ne: "''42'' \<noteq> []" by simp
  have old: "queryUserBySnowflake ?db ''42'' = (?ann, True) \<and> ''/'' \<in> set (queryAccess ?db ?ann)"
    by (simp add: queryUserBySnowflake_def queryAccess_def)
  note inst = adminCreation_makes_admin [OF ne, of ?db ?ann]
  have a: "access (adminCreation ?db ''42'') = access ?db"
    using inst old by blast
  have "queryUserBySnowflake (adminCreation ?db ''42'') ''42'' = (?ann\<lparr>u_admin := True\<rparr>, True)
        \<and> map u_id (users (adminCreation ?db ''42'')) = map u_id (users ?db)"
    using inst old by blast
  then have u: "users (adminCreation ?db ''42'') = [?ann\<lparr>u_admin := True\<rparr>]"
    by (auto simp: queryUserBySnowflake_def map_eq_Cons_conv split: option.splits if_splits)
  have 1: "adminCreation ?db ''42'' = \<lparr>users = [?ann\<lparr>u_admin := True\<rparr>], access = access ?db\<rparr>"
    using a u by (cases "adminCreation ?db ''42''") simp
  have 2: "adminCreation \<lparr>users = [], access = []\<rparr> ''42''
     = \<lparr>users = [\<lparr>u_id = 1, u_snowflake = ''42'', u_admin = True, u_name = []\<rparr>],
        access = [\<lparr>a_id = 1, a_user = 1, a_path = ''/''\<rparr>]\<rparr>"
    by (simp add: adminCreation_def adminUserStep_def queryUserBySnowflake_def QueryNextID_def
        tableIds_def nextId_def queryDoAddUser_def queryAccess_def Contains_def
        Query_insert_access_def)
  from 1 2 show ?thesis by simp
qed

subsection \<open>Ids are computed by the client\<close>

lemma maxId_snoc: "maxId (xs @ [i]) = (if xs = [] then i else max (maxId xs) i)"
  by (induction xs rule: maxId.induct) auto

lemma nextId_snoc_next: "nextId (xs @ [nextId xs]) = nextId xs + 1"
  by (simp add: nextId_def maxId_snoc)

lemma allocRun_reads:
  "allocRun [ReadNext ClientA, ReadNext ClientB] \<lparr>ids = xs, readA = None, readB = None\<rparr>
     = \<lparr>ids = xs, readA = Some (nextId xs), readB = Some (nextId xs)\<rparr>"
  by (simp add: allocRun_def)

lemma allocRun_unserialized:
  "allocRun [ReadNext ClientA, ReadNext ClientB, InsertRow ClientA, InsertRow ClientB]
       \<lparr>ids = xs, readA = None, readB = None\<rparr>
     = \<lparr>ids = xs @ [nextId xs], readA = Some (nextId xs), readB = Some (nextId xs)\<rparr>"
  by (simp add: allocRun_def nextId_fresh)

lemma allocRun_serialized:
  "allocRun [ReadNext ClientA, InsertRow ClientA, ReadNext ClientB, InsertRow ClientB]
       \<lparr>ids = xs, readA = None, readB = None\<rparr>
     = \<lparr>ids = xs @ [nextId xs, nextId xs + 1],
        readA = Some (nextId xs), readB = Some (nextId xs + 1)\<rparr>"
proof -
  have "nextId xs + 1 \<notin> set xs"
    using maxId_ge [of "nextId xs + 1" xs] by (auto simp: nextId_def)
  then show ?thesis
    by (simp add: allocRun_def nextId_fresh nextId_snoc_next)
qed

text \<open>
  Claim C7. A row that the admin block inserts gets the id that \<^verbatim>\<open>QueryNextID\<close> computed
  from the table just before the insert: the new user row has the next id of the users
  table, and a new access row has the next id of the access table; the next id is a
  function of the table's ids alone. Hence two clients that both read the next id of a
  table before either inserts are given the same id (and only one of the two rows gets
  in), while two clients that read and insert one after the other are given different
  ids.
\<close>

theorem ids_are_client_side:
  "(flagAdmin \<noteq> [] \<and> \<not> snd (queryUserBySnowflake db flagAdmin) \<longrightarrow>
      users (adminCreation db flagAdmin)
        = users db @ [\<lparr>u_id = QueryNextID db ''users'', u_snowflake = flagAdmin,
                       u_admin = True, u_name = []\<rparr>])
   \<and> (access (adminCreation db flagAdmin) = access db
       \<or> (\<exists>row. access (adminCreation db flagAdmin) = access db @ [row]
                \<and> a_id row = QueryNextID db ''access'' \<and> a_path row = ''/''))
   \<and> QueryNextID db table = nextId (tableIds db table)
   \<and> allocRun [ReadNext ClientA, ReadNext ClientB]
        \<lparr>ids = tableIds db table, readA = None, readB = None\<rparr>
      = \<lparr>ids = tableIds db table,
         readA = Some (QueryNextID db table), readB = Some (QueryNextID db table)\<rparr>
   \<and> allocRun [ReadNext ClientA, ReadNext ClientB, InsertRow ClientA, InsertRow ClientB]
        \<lparr>ids = tableIds db table, readA = None, readB = None\<rparr>
      = \<lparr>ids = tableIds db table @ [QueryNextID db table],
         readA = Some (QueryNextID db table), readB = Some (QueryNextID db table)\<rparr>
   \<and> allocRun [ReadNext ClientA, InsertRow ClientA, ReadNext ClientB, InsertRow ClientB]
        \<lparr>ids = tableIds db table, readA = None, readB = None\<rparr>
      = \<lparr>ids = tableIds db table @ [QueryNextID db table, QueryNextID db table + 1],
         readA = Some (QueryNextID db table), readB = Some (QueryNextID db table + 1)\<rparr>"
proof (intro conjI impI)
  assume "flagAdmin \<noteq> [] \<and> \<not> snd (queryUserBySnowflake db flagAdmin)"
  then show "users (adminCreation db flagAdmin)
        = users db @ [\<lparr>u_id = QueryNextID db ''users'', u_snowflake = flagAdmin,
                       u_admin = True, u_name = []\<rparr>]"
    by (simp add: adminCreation_users adminUserStep_new)
next
  show "access (adminCreation db flagAdmin) = access db
       \<or> (\<exists>row. access (adminCreation db flagAdmin) = access db @ [row]
                \<and> a_id row = QueryNextID db ''access'' \<and> a_path row = ''/'')"
    by (rule adminCreation_access_growth)
qed (simp_all only: QueryNextID_def allocRun_reads allocRun_unserialized allocRun_serialized)

theorem ids_are_client_side_witness:
  "users (adminCreation
            \<lparr>users = [\<lparr>u_id = 4, u_snowflake = ''7'', u_admin = False, u_name = ''bob''\<rparr>],
             access = []\<rparr> ''42'')
     = [\<lparr>u_id = 4, u_snowflake = ''7'', u_admin = False, u_name = ''bob''\<rparr>,
        \<lparr>u_id = 5, u_snowflake = ''42'', u_admin = True, u_name = []\<rparr>]
   \<and> allocRun [ReadNext ClientA, ReadNext ClientB, InsertRow ClientA, InsertRow ClientB]
        \<lparr>ids = [4], readA = None, readB = None\<rparr>
      = \<lparr>ids = [4, 5], readA = Some 5, readB = Some 5\<rparr>"
proof -
  let ?db = "\<lparr>users = [\<lparr>u_id = 4, u_snowflake = ''7'', u_admin = False, u_name = ''bob''\<rparr>],
             access = []\<rparr>"
  have "''42'' \<noteq> [] \<and> \<not> snd (queryUserBySnowflake ?db ''42'')"
    by (simp add: queryUserBySnowflake_def)
  then show ?thesis
    using ids_are_client_side [of "''42''" ?db "''users''"]
    by (simp add: QueryNextID_def tableIds_def nextId_def)
qed

subsection \<open>Grants match whole path segments\<close>

lemma splitPath_nonempty: "splitPath p \<noteq> []"
  by (induction p) (auto split: list.splits)

lemma splitPath_no_slash: "CHR ''/'' \<notin> set s \<Longrightarrow> splitPath s = [s]"
  by (induction s) auto

lemma splitPath_slash: "splitPath (a @ CHR ''/'' # b) = splitPath a @ splitPath b"
proof (induction a)
  case Nil
  show ?case by simp
next
  case (Cons c a)
  obtain seg segs where "splitPath a = seg # segs"
    using splitPath_nonempty [of a] by (cases "splitPath a") auto
  with Cons show ?case by simp
qed

lemma segments_slash: "segments (a @ CHR ''/'' # b) = segments a @ segments b"
  by (simp add: segments_def splitPath_slash)

lemma segments_single:
  "CHR ''/'' \<notin> set s \<Longrightarrow> s \<noteq> [] \<Longrightarrow> segments (CHR ''/'' # s) = [s]"
  by (simp add: segments_def splitPath_no_slash)

lemma isDescendant_below:
  "segments rest \<noteq> [] \<Longrightarrow> isDescendant g (g @ CHR ''/'' # rest)"
  by (simp add: isDescendant_def segments_slash strict_prefix_def)

lemma segment_boundary:
  assumes "CHR ''/'' \<notin> set s" and "CHR ''/'' \<notin> set x" and "s \<noteq> []" and "x \<noteq> []"
  shows "\<not> isPermitted {CHR ''/'' # s} (CHR ''/'' # s @ x)"
  using assms segments_single [of s] segments_single [of "s @ x"]
  by (simp add: isPermitted_def isDescendant_def)

text \<open>
  Claim C1. \<^verbatim>\<open>isPermitted(grants, target)\<close> is true if and only if some grant equals the
  target or the target is a path-segment descendant of it. With the grants \<^verbatim>\<open>/a\<close> and
  \<^verbatim>\<open>/b/c\<close>, \<^verbatim>\<open>/a/x\<close> is permitted, \<^verbatim>\<open>/b/cx\<close> is not, and \<^verbatim>\<open>/b/c/d\<close> is. A grant never
  matches a path that only continues its last segment (\<^verbatim>\<open>/foo\<close> does not match
  \<^verbatim>\<open>/foobar\<close>), and it does match every path that continues it with a slash and at
  least one more segment.
\<close>

theorem isPermitted_segments:
  "(isPermitted grants target \<longleftrightarrow> (\<exists>g \<in> grants. g = target \<or> isDescendant g target))
   \<and> isPermitted {''/a'', ''/b/c''} ''/a/x''
   \<and> \<not> isPermitted {''/a'', ''/b/c''} ''/b/cx''
   \<and> isPermitted {''/a'', ''/b/c''} ''/b/c/d''
   \<and> \<not> isPermitted {''/foo''} ''/foobar''
   \<and> (CHR ''/'' \<notin> set s \<and> CHR ''/'' \<notin> set x \<and> s \<noteq> [] \<and> x \<noteq> []
        \<longrightarrow> \<not> isPermitted {CHR ''/'' # s} (CHR ''/'' # s @ x))
   \<and> (g \<in> grants \<and> segments rest \<noteq> [] \<longrightarrow> isPermitted grants (g @ CHR ''/'' # rest))"
proof (intro conjI impI)
  show "isPermitted grants target \<longleftrightarrow> (\<exists>g \<in> grants. g = target \<or> isDescendant g target)"
    by (simp add: isPermitted_def)
  show "isPermitted {''/a'', ''/b/c''} ''/a/x''"
    by (simp add: isPermitted_def isDescendant_def segments_def)
  show "\<not> isPermitted {''/a'', ''/b/c''} ''/b/cx''"
    by (simp add: isPermitted_def isDescendant_def segments_def)
  show "isPermitted {''/a'', ''/b/c''} ''/b/c/d''"
    by (simp add: isPermitted_def isDescendant_def segments_def)
  show "\<not> isPermitted {''/foo''} ''/foobar''"
    by (simp add: isPermitted_def isDescendant_def segments_def)
next
  assume "CHR ''/'' \<notin> set s \<and> CHR ''/'' \<notin> set x \<and> s \<noteq> [] \<and> x \<noteq> []"
  then show "\<not> isPermitted {CHR ''/'' # s} (CHR ''/'' # s @ x)"
    by (simp add: segment_boundary)
next
  assume "g \<in> grants \<and> segments rest \<noteq> []"
  then show "isPermitted grants (g @ CHR ''/'' # rest)"
    using isDescendant_below [of rest g] by (auto simp: isPermitted_def)
qed

theorem isPermitted_segments_witness:
  "\<not> isPermitted {''/docs''} ''/docsecret''
   \<and> isPermitted {''/docs'', ''/pub''} ''/docs/a/b''
   \<and> isPermitted {''/docs''} ''/docs''"
proof -
  have 1: "CHR ''/'' \<notin> set ''docs'' \<and> CHR ''/'' \<notin> set ''ecret'' \<and> ''docs'' \<noteq> [] \<and> ''ecret'' \<noteq> []"
    by simp
  have 2: "''/docs'' \<in> {''/docs'', ''/pub''} \<and> segments ''a/b'' \<noteq> []"
    by (simp add: segments_def)
  have 3: "\<exists>g \<in> {''/docs''}. g = ''/docs'' \<or> isDescendant g ''/docs''"
    by simp
  note inst = isPermitted_segments
    [where s = "''docs''" and x = "''ecret''" and g = "''/docs''" and rest = "''a/b''"
       and grants = "{''/docs'', ''/pub''}" and target = "''/pub''"]
  note inst' = isPermitted_segments [where grants = "{''/docs''}" and target = "''/docs''"]
  have "\<not> isPermitted {''/docs''} ''/docsecret''"
    using inst 1 by simp
  moreover have "isPermitted {''/docs'', ''/pub''} ''/docs/a/b''"
    using inst 2 by simp
  moreover have "isPermitted {''/docs''} ''/docs''"
    using inst' 3 by blast
  ultimately show ?thesis by simp
qed

end
